theory Spec2Isabelle
  imports Complex_Main
begin

section \<open>The benchmark decorator of BenchDecorator.py\<close>

text \<open>
  The source is one Python module: the decorator factory \<open>bench\<close>, whose inner function
  \<open>wrapper\<close> is the benchmark engine, and the sweep driver \<open>test\<close>.

  What the engine does beyond computing a value is made explicit:
  \<^item> \<open>time.perf_counter()\<close> reads a clock that the program does not control. The readings
    are an input of the model: \<open>clock e k\<close> is what the \<open>k\<close>-th read returns. Python floats
    are modelled by rationals, and the \<open>statistics\<close> functions by exact arithmetic.
  \<^item> The \<open>threading.Thread\<close> objects of one trial live in a store, the list \<open>threads\<close>,
    and are referred to by their index. A thread is \<open>Initial\<close> until \<open>start()\<close>, then
    \<open>Alive r\<close> while its \<open>worker\<close> loop has \<open>r\<close> iterations left, then \<open>Stopped\<close>.
  \<^item> Workers run concurrently with the main thread. Before each \<open>start()\<close> and each
    \<open>join()\<close> of the main thread the scheduler lets the workers take the moves listed
    in \<open>sched e k\<close> (thread indices, in order; an index of a thread that cannot move is
    skipped). \<open>join()\<close> blocks until its thread has stopped, so that thread then runs
    to the end of its loop. Every theorem holds for every \<open>sched\<close>, hence for every
    interleaving of the workers' invocations.
  \<^item> One invocation of the workload is one move: it reads and writes the part \<open>user\<close> of
    the world and either returns a value (discarded) or raises. An exception that escapes
    \<open>worker\<close> is handled inside the thread by \<open>threading.excepthook\<close>: the thread stops and
    nothing reaches the code that called \<open>start()\<close> or \<open>join()\<close>.
  \<^item> Every observable action is appended to \<open>trace\<close>, so that claims about the number and
    order of actions are statements about a list of events.
  \<^item> Whether the driver can write the file of a result is decided outside the program:
    \<open>sink_ok e n_threads seq_iter\<close> says whether opening and writing the file named after
    that configuration succeeds.
  A workload that does not return is outside the model: \<open>fun_body\<close> is a total function.
\<close>

subsection \<open>Values, events, threads\<close>

datatype error = StatisticsError | RuntimeError | OSError | ZeroDivisionError

datatype 'v outcome = Return 'v | Raise string

datatype 'a pyval = PStr string | PTuple "'a list" | PInt int | PFloat rat

datatype 'a event =
    PerfCounter rat
  | ThreadCreate nat
  | ThreadStart nat
  | Call nat "'a list" "(string \<times> 'a) list"
  | Excepthook nat string
  | ThreadJoin nat

datatype thread = Initial | Alive nat | Stopped

record ('a, 'v, 's) workload =
  fun_name :: string
  fun_body :: "'a list \<Rightarrow> (string \<times> 'a) list \<Rightarrow> 's \<Rightarrow> 'v outcome \<times> 's"

record env =
  clock :: "nat \<Rightarrow> rat"
  sched :: "nat \<Rightarrow> nat list"
  sink_ok :: "int \<Rightarrow> int \<Rightarrow> bool"

record ('a, 's) world =
  user :: 's
  ticks :: nat
  slots :: nat
  trace :: "'a event list"

subsection \<open>The library functions the engine calls\<close>

text \<open>
  \<open>statistics.mean\<close> raises \<open>StatisticsError\<close> on an empty sample and
  \<open>statistics.variance\<close> on a sample of fewer than two points; otherwise they return the
  arithmetic mean and the sample variance (divisor \<open>n - 1\<close>).
\<close>

definition statistics_mean :: "rat list \<Rightarrow> error + rat" where
  "statistics_mean data =
     (if length data < 1 then Inl StatisticsError
      else Inr (sum_list data / of_nat (length data)))"

definition statistics_variance :: "rat list \<Rightarrow> error + rat" where
  "statistics_variance data =
     (if length data < 2 then Inl StatisticsError
      else let xbar = sum_list data / of_nat (length data)
           in Inr (sum_list (map (\<lambda>x. (x - xbar) ^ 2) data) / of_nat (length data - 1)))"

definition perf_counter :: "env \<Rightarrow> ('a, 's) world \<Rightarrow> rat \<times> ('a, 's) world" where
  "perf_counter e w =
     (let t = clock e (ticks w)
      in (t, w\<lparr>ticks := Suc (ticks w), trace := trace w @ [PerfCounter t]\<rparr>))"

text \<open>\<open>thread.start()\<close>: a thread can be started once; a second start raises.\<close>

definition thread_start ::
  "int \<Rightarrow> nat \<Rightarrow> thread list \<times> ('a, 's) world \<Rightarrow> (error + thread list) \<times> ('a, 's) world" where
  "thread_start seq_iter k cfg =
     (case cfg of (threads, w) \<Rightarrow>
        if k < length threads \<and> threads ! k = Initial
        then (Inr (threads[k := Alive (nat seq_iter)]), w\<lparr>trace := trace w @ [ThreadStart k]\<rparr>)
        else (Inl RuntimeError, w))"

subsection \<open>The worker\<close>

text \<open>
  \<^verbatim>\<open>
  def worker():
      for _ in range(seq_iter):
          func(*args, **kwargs)
  \<close>
  One move of thread \<open>i\<close>: with iterations left it invokes the workload once, passing the
  positional and the keyword arguments of the wrapper's call; with none left the loop
  ends and the thread stops. A raise ends the loop at once.
\<close>

definition worker_step ::
  "('a, 'v, 's) workload \<Rightarrow> 'a list \<Rightarrow> (string \<times> 'a) list \<Rightarrow> nat \<Rightarrow>
   thread list \<times> ('a, 's) world \<Rightarrow> thread list \<times> ('a, 's) world" where
  "worker_step func args kwargs i cfg =
     (case cfg of (threads, w) \<Rightarrow>
        if i < length threads then
          (case threads ! i of
             Initial \<Rightarrow> (threads, w)
           | Stopped \<Rightarrow> (threads, w)
           | Alive 0 \<Rightarrow> (threads[i := Stopped], w)
           | Alive (Suc r) \<Rightarrow>
               (case fun_body func args kwargs (user w) of
                  (Return v, s) \<Rightarrow>
                    (threads[i := Alive r],
                     w\<lparr>user := s, trace := trace w @ [Call i args kwargs]\<rparr>)
                | (Raise m, s) \<Rightarrow>
                    (threads[i := Stopped],
                     w\<lparr>user := s, trace := trace w @ [Call i args kwargs, Excepthook i m]\<rparr>)))
        else (threads, w))"

text \<open>The moves the scheduler gives the workers before the next action of the main thread.\<close>

definition interleave ::
  "env \<Rightarrow> ('a, 'v, 's) workload \<Rightarrow> 'a list \<Rightarrow> (string \<times> 'a) list \<Rightarrow>
   thread list \<times> ('a, 's) world \<Rightarrow> thread list \<times> ('a, 's) world" where
  "interleave e func args kwargs cfg =
     (case cfg of (threads, w) \<Rightarrow>
        fold (worker_step func args kwargs) (sched e (slots w))
          (threads, w\<lparr>slots := Suc (slots w)\<rparr>))"

text \<open>
  \<open>thread.join()\<close>: raises on a thread that was never started; otherwise it returns once
  the thread has stopped, which takes at most one move more than it has iterations left.
\<close>

definition thread_join ::
  "('a, 'v, 's) workload \<Rightarrow> 'a list \<Rightarrow> (string \<times> 'a) list \<Rightarrow> nat \<Rightarrow>
   thread list \<times> ('a, 's) world \<Rightarrow> (error + thread list) \<times> ('a, 's) world" where
  "thread_join func args kwargs k cfg =
     (case cfg of (threads, w) \<Rightarrow>
        if k < length threads then
          (case threads ! k of
             Initial \<Rightarrow> (Inl RuntimeError, w)
           | Stopped \<Rightarrow> (Inr threads, w\<lparr>trace := trace w @ [ThreadJoin k]\<rparr>)
           | Alive r \<Rightarrow>
               (case (worker_step func args kwargs k ^^ Suc r) (threads, w) of
                  (threads', w') \<Rightarrow> (Inr threads', w'\<lparr>trace := trace w' @ [ThreadJoin k]\<rparr>)))
        else (Inl RuntimeError, w))"

subsection \<open>One trial\<close>

text \<open>
  \<^verbatim>\<open>
  for _ in range(n_threads):
      thread = threading.Thread(target=worker)
      threads.append(thread)
  \<close>
\<close>

fun create_threads :: "nat \<Rightarrow> thread list \<times> ('a, 's) world \<Rightarrow> thread list \<times> ('a, 's) world" where
  "create_threads 0 cfg = cfg"
| "create_threads (Suc n) (threads, w) =
     create_threads n
       (threads @ [Initial], w\<lparr>trace := trace w @ [ThreadCreate (length threads)]\<rparr>)"

text \<open>\<^verbatim>\<open>for thread in threads: thread.start()\<close>\<close>

fun start_all ::
  "env \<Rightarrow> ('a, 'v, 's) workload \<Rightarrow> 'a list \<Rightarrow> (string \<times> 'a) list \<Rightarrow> int \<Rightarrow> nat list \<Rightarrow>
   thread list \<times> ('a, 's) world \<Rightarrow> (error + thread list) \<times> ('a, 's) world" where
  "start_all e func args kwargs seq_iter [] cfg = (Inr (fst cfg), snd cfg)"
| "start_all e func args kwargs seq_iter (k # ks) cfg =
     (case thread_start seq_iter k (interleave e func args kwargs cfg) of
        (Inl err, w) \<Rightarrow> (Inl err, w)
      | (Inr threads, w) \<Rightarrow> start_all e func args kwargs seq_iter ks (threads, w))"

text \<open>\<^verbatim>\<open>for thread in threads: thread.join()\<close>\<close>

fun join_all ::
  "env \<Rightarrow> ('a, 'v, 's) workload \<Rightarrow> 'a list \<Rightarrow> (string \<times> 'a) list \<Rightarrow> nat list \<Rightarrow>
   thread list \<times> ('a, 's) world \<Rightarrow> (error + thread list) \<times> ('a, 's) world" where
  "join_all e func args kwargs [] cfg = (Inr (fst cfg), snd cfg)"
| "join_all e func args kwargs (k # ks) cfg =
     (case thread_join func args kwargs k (interleave e func args kwargs cfg) of
        (Inl err, w) \<Rightarrow> (Inl err, w)
      | (Inr threads, w) \<Rightarrow> join_all e func args kwargs ks (threads, w))"

text \<open>
  The body of the loop \<^verbatim>\<open>for _ in range(iter)\<close>, lines 26 to 43 of the source, in the
  order of its statements: the start time is read first, then the threads are created,
  started and joined, then the end time is read.
\<close>

definition trial ::
  "env \<Rightarrow> ('a, 'v, 's) workload \<Rightarrow> 'a list \<Rightarrow> (string \<times> 'a) list \<Rightarrow> int \<Rightarrow> int \<Rightarrow>
   ('a, 's) world \<Rightarrow> (error + rat) \<times> ('a, 's) world" where
  "trial e func args kwargs n_threads seq_iter w0 =
     (case perf_counter e w0 of (start_time, w1) \<Rightarrow>
      case create_threads (nat n_threads) ([], w1) of (threads, w2) \<Rightarrow>
      case start_all e func args kwargs seq_iter [0..<length threads] (threads, w2) of
        (Inl err, w3) \<Rightarrow> (Inl err, w3)
      | (Inr threads3, w3) \<Rightarrow>
      case join_all e func args kwargs [0..<length threads3] (threads3, w3) of
        (Inl err, w4) \<Rightarrow> (Inl err, w4)
      | (Inr threads4, w4) \<Rightarrow>
      case perf_counter e w4 of (end_time, w5) \<Rightarrow>
        (Inr (end_time - start_time), w5))"

subsection \<open>The engine\<close>

text \<open>The loop \<^verbatim>\<open>for _ in range(iter)\<close> with its accumulator \<open>results\<close>.\<close>

fun trials ::
  "env \<Rightarrow> ('a, 'v, 's) workload \<Rightarrow> 'a list \<Rightarrow> (string \<times> 'a) list \<Rightarrow> int \<Rightarrow> int \<Rightarrow> nat \<Rightarrow>
   rat list \<Rightarrow> ('a, 's) world \<Rightarrow> (error + rat list) \<times> ('a, 's) world" where
  "trials e func args kwargs n_threads seq_iter 0 results w = (Inr results, w)"
| "trials e func args kwargs n_threads seq_iter (Suc m) results w =
     (case trial e func args kwargs n_threads seq_iter w of
        (Inl err, w') \<Rightarrow> (Inl err, w')
      | (Inr execution_time, w') \<Rightarrow>
          trials e func args kwargs n_threads seq_iter m (results @ [execution_time]) w')"

definition wrapper ::
  "env \<Rightarrow> int \<Rightarrow> int \<Rightarrow> int \<Rightarrow> ('a, 'v, 's) workload \<Rightarrow> 'a list \<Rightarrow> (string \<times> 'a) list \<Rightarrow>
   ('a, 's) world \<Rightarrow> (error + (string \<times> 'a pyval) list) \<times> ('a, 's) world" where
  "wrapper e n_threads seq_iter iter func args kwargs w0 =
     (case trials e func args kwargs n_threads seq_iter (nat iter) [] w0 of
        (Inl err, w) \<Rightarrow> (Inl err, w)
      | (Inr results, w) \<Rightarrow>
      case statistics_mean results of
        Inl err \<Rightarrow> (Inl err, w)
      | Inr average_execution_time \<Rightarrow>
      case (if iter = 1 then Inr (PInt 0)
            else map_sum id PFloat (statistics_variance results)) of
        Inl err \<Rightarrow> (Inl err, w)
      | Inr variance \<Rightarrow>
        (Inr [(''fun'', PStr (fun_name func)),
              (''args'', PTuple args),
              (''n_threads'', PInt n_threads),
              (''seq_iter'', PInt seq_iter),
              (''iter'', PInt iter),
              (''mean'', PFloat average_execution_time),
              (''variance'', variance)], w))"

text \<open>\<open>bench(n_threads, seq_iter, iter)(func)\<close> is the wrapper with its parameters bound.\<close>

definition bench ::
  "env \<Rightarrow> int \<Rightarrow> int \<Rightarrow> int \<Rightarrow> ('a, 'v, 's) workload \<Rightarrow> 'a list \<Rightarrow> (string \<times> 'a) list \<Rightarrow>
   ('a, 's) world \<Rightarrow> (error + (string \<times> 'a pyval) list) \<times> ('a, 's) world" where
  "bench e n_threads seq_iter iter func = wrapper e n_threads seq_iter iter func"

subsection \<open>The sweep driver\<close>

text \<open>
  \<^verbatim>\<open>
  for n_threads in [1, 2, 4, 8]:
      seq_iter = 16 // n_threads
      result = bench(n_threads=n_threads, seq_iter=seq_iter, iter=iter)(fun)(*args)
      ... print and write result ...
  \<close>
  The engine is called with positional arguments only. What the driver prints and writes
  is kept as the list of results in the order they were produced, each with the two
  numbers that go into its file name. An exception of the engine ends the loop, and so
  does a file that cannot be written. \<open>//\<close> is floor division and raises on a zero
  divisor; \<open>div\<close> on \<open>int\<close> rounds down as well.
\<close>

fun test_loop ::
  "env \<Rightarrow> int \<Rightarrow> ('a, 'v, 's) workload \<Rightarrow> 'a list \<Rightarrow> int list \<Rightarrow>
   (int \<times> int \<times> (string \<times> 'a pyval) list) list \<Rightarrow> ('a, 's) world \<Rightarrow>
   (error + (int \<times> int \<times> (string \<times> 'a pyval) list) list) \<times> ('a, 's) world" where
  "test_loop e iter func args [] written w = (Inr written, w)"
| "test_loop e iter func args (n_threads # rest) written w =
     (if n_threads = 0 then (Inl ZeroDivisionError, w)
      else
        let seq_iter = 16 div n_threads
        in case bench e n_threads seq_iter iter func args [] w of
             (Inl err, w') \<Rightarrow> (Inl err, w')
           | (Inr result, w') \<Rightarrow>
               if sink_ok e n_threads seq_iter
               then test_loop e iter func args rest (written @ [(n_threads, seq_iter, result)]) w'
               else (Inl OSError, w'))"

definition test ::
  "env \<Rightarrow> int \<Rightarrow> ('a, 'v, 's) workload \<Rightarrow> 'a list \<Rightarrow> ('a, 's) world \<Rightarrow>
   (error + (int \<times> int \<times> (string \<times> 'a pyval) list) list) \<times> ('a, 's) world" where
  "test e iter func args w = test_loop e iter func args [1, 2, 4, 8] [] w"

subsection \<open>Reading a trace\<close>

fun is_call :: "'a event \<Rightarrow> bool" where
  "is_call (Call i args kwargs) = True"
| "is_call _ = False"

fun is_main :: "'a event \<Rightarrow> bool" where
  "is_main (Call i args kwargs) = False"
| "is_main (Excepthook i m) = False"
| "is_main _ = True"

definition calls :: "('a, 's) world \<Rightarrow> nat" where
  "calls w = length (filter is_call (trace w))"

text \<open>The invocations made by thread \<open>j\<close>, and the events a run has added to a trace.\<close>

fun called_by :: "nat \<Rightarrow> 'a event \<Rightarrow> bool" where
  "called_by j (Call i args kwargs) = (i = j)"
| "called_by j _ = False"


definition emitted :: "('a, 's) world \<Rightarrow> ('a, 's) world \<Rightarrow> 'a event list" where
  "emitted w w' = drop (length (trace w)) (trace w')"

fun is_excepthook :: "'a event \<Rightarrow> bool" where
  "is_excepthook (Excepthook i m) = True"
| "is_excepthook _ = False"



text \<open>An invocation passes on the arguments of the wrapper's call, both kinds.\<close>

fun forwards :: "'a list \<Rightarrow> (string \<times> 'a) list \<Rightarrow> 'a event \<Rightarrow> bool" where
  "forwards args kwargs (Call i args' kwargs') = (args' = args \<and> kwargs' = kwargs)"
| "forwards args kwargs _ = True"


subsection \<open>Quantities the proofs follow\<close>

text \<open>
  The iterations a thread still has to run, and their sum over the store. A workload never
  raises on given arguments when its invocation returns from every state of the world.
  \<open>effect func args kwargs\<close> is what one invocation with these arguments does to the part
  of the world the workload sees, whether it returns or raises.
  \<open>timings e t m\<close> are the elapsed times of \<open>m\<close> consecutive trials when the clock has
  been read \<open>t\<close> times before: each trial reads it twice.
\<close>

fun remaining :: "thread \<Rightarrow> nat" where
  "remaining (Alive r) = r"
| "remaining _ = 0"

definition pending :: "thread list \<Rightarrow> nat" where
  "pending threads = sum_list (map remaining threads)"

definition never_raises :: "('a, 'v, 's) workload \<Rightarrow> 'a list \<Rightarrow> (string \<times> 'a) list \<Rightarrow> bool" where
  "never_raises func args kwargs = (\<forall>s. \<exists>v s'. fun_body func args kwargs s = (Return v, s'))"

definition effect :: "('a, 'v, 's) workload \<Rightarrow> 'a list \<Rightarrow> (string \<times> 'a) list \<Rightarrow> 's \<Rightarrow> 's" where
  "effect func args kwargs s = snd (fun_body func args kwargs s)"

fun timings :: "env \<Rightarrow> nat \<Rightarrow> nat \<Rightarrow> rat list" where
  "timings e t 0 = []"
| "timings e t (Suc m) = (clock e (Suc t) - clock e t) # timings e (Suc (Suc t)) m"

text \<open>
  What moves of the workers alone can change between two configurations: no thread is
  created or started, a stopped thread stays stopped, the clock is not read, the trace
  grows by invocations that carry the wrapper's arguments, and every invocation uses up
  one iteration of its thread. A raise gives up the iterations left, so the count is
  exact when no excepthook ran. Each invocation in the trace is an invocation of the
  workload with the wrapper's arguments: the world the workload sees is the one that
  this many invocations leave.
\<close>

definition workers_ran ::
  "('a, 'v, 's) workload \<Rightarrow> 'a list \<Rightarrow> (string \<times> 'a) list \<Rightarrow>
   thread list \<times> ('a, 's) world \<Rightarrow> thread list \<times> ('a, 's) world \<Rightarrow> bool" where
  "workers_ran func args kwargs c c' =
     (length (fst c') = length (fst c) \<and> ticks (snd c') = ticks (snd c) \<and>
      (\<forall>j < length (fst c).
         (fst c ! j = Initial \<longleftrightarrow> fst c' ! j = Initial) \<and>
         (fst c ! j = Stopped \<longrightarrow> fst c' ! j = Stopped)) \<and>
      (\<exists>xs. trace (snd c') = trace (snd c) @ xs \<and> filter is_main xs = [] \<and>
         list_all (forwards args kwargs) xs \<and>
         length (filter is_call xs) + pending (fst c') \<le> pending (fst c) \<and>
         (\<not> list_ex is_excepthook xs \<longrightarrow>
            length (filter is_call xs) + pending (fst c') = pending (fst c)) \<and>
         (\<forall>j < length (fst c).
            length (filter (called_by j) xs) + remaining (fst c' ! j) \<le> remaining (fst c ! j) \<and>
            (\<not> list_ex is_excepthook xs \<longrightarrow>
               length (filter (called_by j) xs) + remaining (fst c' ! j) = remaining (fst c ! j))) \<and>
         user (snd c') = (effect func args kwargs ^^ length (filter is_call xs)) (user (snd c))))"

subsection \<open>Workloads and an environment to run them\<close>

text \<open>
  \<^verbatim>\<open>
  def just_wait(n):  # NOOP for n/10 seconds
      time.sleep(n * 0.1)
  \<close>
  The call binds \<open>n\<close> from one positional or one keyword argument and raises
  \<open>TypeError\<close> otherwise; \<open>time.sleep\<close> raises \<open>ValueError\<close> on a negative length. The
  time it sleeps shows in the clock only. \<open>stub\<close> is a workload that counts its
  invocations in the world, and \<open>recorder\<close> one that writes down the arguments it is
  invoked with.
\<close>

fun just_wait_body :: "int list \<Rightarrow> (string \<times> int) list \<Rightarrow> 's \<Rightarrow> unit outcome \<times> 's" where
  "just_wait_body [n] [] s = (if n < 0 then Raise ''ValueError'' else Return (), s)"
| "just_wait_body [] [(k, n)] s =
     (if k \<noteq> ''n'' then Raise ''TypeError''
      else if n < 0 then Raise ''ValueError'' else Return (), s)"
| "just_wait_body args kwargs s = (Raise ''TypeError'', s)"

definition just_wait :: "(int, unit, 's) workload" where
  "just_wait = \<lparr>fun_name = ''just_wait'', fun_body = just_wait_body\<rparr>"

fun stub_body :: "int list \<Rightarrow> (string \<times> int) list \<Rightarrow> nat \<Rightarrow> unit outcome \<times> nat" where
  "stub_body args kwargs count = (Return (), Suc count)"

definition stub :: "(int, unit, nat) workload" where
  "stub = \<lparr>fun_name = ''stub'', fun_body = stub_body\<rparr>"

fun recorder_body ::
  "int list \<Rightarrow> (string \<times> int) list \<Rightarrow> (int list \<times> (string \<times> int) list) list \<Rightarrow>
   unit outcome \<times> (int list \<times> (string \<times> int) list) list" where
  "recorder_body args kwargs received = (Return (), received @ [(args, kwargs)])"

definition recorder :: "(int, unit, (int list \<times> (string \<times> int) list) list) workload" where
  "recorder = \<lparr>fun_name = ''recorder'', fun_body = recorder_body\<rparr>"

definition clock0 :: "nat \<Rightarrow> rat" where
  "clock0 k = of_nat (k * k) / 2"

definition sched0 :: "nat \<Rightarrow> nat list" where
  "sched0 k = [0, 1, 2, 3, 3, 1]"

definition sink0 :: "int \<Rightarrow> int \<Rightarrow> bool" where
  "sink0 n_threads seq_iter = True"

definition env0 :: env where
  "env0 = \<lparr>clock = clock0, sched = sched0, sink_ok = sink0\<rparr>"

definition world0 :: "(int, nat) world" where
  "world0 = \<lparr>user = 0, ticks = 0, slots = 0, trace = []\<rparr>"

definition world_log :: "(int, (int list \<times> (string \<times> int) list) list) world" where
  "world_log = \<lparr>user = [], ticks = 0, slots = 0, trace = []\<rparr>"

section \<open>Properties\<close>

subsection \<open>Moves of the workers\<close>

lemma funpow_plus: "(f ^^ (m + n)) x = (f ^^ n) ((f ^^ m) x)"
  by (induction n) simp_all

lemma pending_update:
  "i < length ths \<Longrightarrow> pending (ths[i := t]) + remaining (ths ! i) = pending ths + remaining t"
  unfolding pending_def
proof (induction ths arbitrary: i)
  case Nil
  then show ?case by simp
next
  case (Cons a ths)
  then show ?case by (cases i) auto
qed

lemma pending_replicate_Initial: "pending (replicate n Initial) = 0"
  by (simp add: pending_def)

lemma pending_all_Stopped:
  "\<forall>j < length ths. ths ! j = Stopped \<Longrightarrow> pending ths = 0"
  by (auto simp: pending_def in_set_conv_nth)

lemma workers_ran_refl: "workers_ran func args kwargs c c"
  by (simp add: workers_ran_def)

lemma workers_ran_trans:
  assumes "workers_ran func args kwargs c1 c2" and "workers_ran func args kwargs c2 c3"
  shows "workers_ran func args kwargs c1 c3"
proof -
  from assms(1) obtain xs where xs:
    "trace (snd c2) = trace (snd c1) @ xs" "filter is_main xs = []"
    "list_all (forwards args kwargs) xs"
    "length (filter is_call xs) + pending (fst c2) \<le> pending (fst c1)"
    "\<not> list_ex is_excepthook xs \<longrightarrow>
       length (filter is_call xs) + pending (fst c2) = pending (fst c1)"
    "\<forall>j < length (fst c1).
       length (filter (called_by j) xs) + remaining (fst c2 ! j) \<le> remaining (fst c1 ! j) \<and>
       (\<not> list_ex is_excepthook xs \<longrightarrow>
          length (filter (called_by j) xs) + remaining (fst c2 ! j) = remaining (fst c1 ! j))"
    "user (snd c2) = (effect func args kwargs ^^ length (filter is_call xs)) (user (snd c1))"
    unfolding workers_ran_def by blast
  from assms(2) obtain ys where ys:
    "trace (snd c3) = trace (snd c2) @ ys" "filter is_main ys = []"
    "list_all (forwards args kwargs) ys"
    "length (filter is_call ys) + pending (fst c3) \<le> pending (fst c2)"
    "\<not> list_ex is_excepthook ys \<longrightarrow>
       length (filter is_call ys) + pending (fst c3) = pending (fst c2)"
    "\<forall>j < length (fst c2).
       length (filter (called_by j) ys) + remaining (fst c3 ! j) \<le> remaining (fst c2 ! j) \<and>
       (\<not> list_ex is_excepthook ys \<longrightarrow>
          length (filter (called_by j) ys) + remaining (fst c3 ! j) = remaining (fst c2 ! j))"
    "user (snd c3) = (effect func args kwargs ^^ length (filter is_call ys)) (user (snd c2))"
    unfolding workers_ran_def by blast
  have len: "length (fst c3) = length (fst c1)" "length (fst c2) = length (fst c1)"
    and tk: "ticks (snd c3) = ticks (snd c1)"
    using assms unfolding workers_ran_def by simp_all
  have thr: "\<forall>j < length (fst c1).
         (fst c1 ! j = Initial \<longleftrightarrow> fst c3 ! j = Initial) \<and>
         (fst c1 ! j = Stopped \<longrightarrow> fst c3 ! j = Stopped)"
    using assms len unfolding workers_ran_def by simp
  have tr: "trace (snd c3) = trace (snd c1) @ (xs @ ys)"
    using xs(1) ys(1) by simp
  have "filter is_main (xs @ ys) = []" "list_all (forwards args kwargs) (xs @ ys)"
    using xs ys by simp_all
  moreover have "length (filter is_call (xs @ ys)) + pending (fst c3) \<le> pending (fst c1)"
    using xs(4) ys(4) by simp
  moreover have "\<not> list_ex is_excepthook (xs @ ys) \<longrightarrow>
       length (filter is_call (xs @ ys)) + pending (fst c3) = pending (fst c1)"
    using xs(5) ys(5) by auto
  moreover have "\<forall>j < length (fst c1).
       length (filter (called_by j) (xs @ ys)) + remaining (fst c3 ! j) \<le> remaining (fst c1 ! j) \<and>
       (\<not> list_ex is_excepthook (xs @ ys) \<longrightarrow>
          length (filter (called_by j) (xs @ ys)) + remaining (fst c3 ! j) = remaining (fst c1 ! j))"
  proof (intro allI impI)
    fix j assume j: "j < length (fst c1)"
    then have j2: "j < length (fst c2)" using len by simp
    from xs(6) j have a:
      "length (filter (called_by j) xs) + remaining (fst c2 ! j) \<le> remaining (fst c1 ! j)"
      "\<not> list_ex is_excepthook xs \<longrightarrow>
         length (filter (called_by j) xs) + remaining (fst c2 ! j) = remaining (fst c1 ! j)"
      by simp_all
    from ys(6) j2 have b:
      "length (filter (called_by j) ys) + remaining (fst c3 ! j) \<le> remaining (fst c2 ! j)"
      "\<not> list_ex is_excepthook ys \<longrightarrow>
         length (filter (called_by j) ys) + remaining (fst c3 ! j) = remaining (fst c2 ! j)"
      by simp_all
    show "length (filter (called_by j) (xs @ ys)) + remaining (fst c3 ! j) \<le> remaining (fst c1 ! j) \<and>
       (\<not> list_ex is_excepthook (xs @ ys) \<longrightarrow>
          length (filter (called_by j) (xs @ ys)) + remaining (fst c3 ! j) = remaining (fst c1 ! j))"
      using a b by auto
  qed
  moreover have "user (snd c3) =
      (effect func args kwargs ^^ length (filter is_call (xs @ ys))) (user (snd c1))"
    using xs(7) ys(7) by (simp add: funpow_plus)
  ultimately show ?thesis
    unfolding workers_ran_def using len tk thr tr by blast
qed

lemma workers_ran_step: "workers_ran func args kwargs c (worker_step func args kwargs i c)"
proof (cases c)
  case (Pair ths w)
  show ?thesis
  proof (cases "i < length ths")
    case False
    then show ?thesis using Pair by (simp add: worker_step_def workers_ran_def)
  next
    case True
    note i = this
    show ?thesis
    proof (cases "ths ! i")
      case Initial
      then show ?thesis using Pair i by (simp add: worker_step_def workers_ran_def)
    next
      case Stopped
      then show ?thesis using Pair i by (simp add: worker_step_def workers_ran_def)
    next
      case (Alive r)
      show ?thesis
      proof (cases r)
        case 0
        have "pending (ths[i := Stopped]) = pending ths"
          using pending_update [OF i, of Stopped] Alive 0 by simp
        then show ?thesis using Pair i Alive 0
          by (auto simp: worker_step_def workers_ran_def nth_list_update effect_def)
      next
        case (Suc r')
        obtain out s where body: "fun_body func args kwargs (user w) = (out, s)"
          by (cases "fun_body func args kwargs (user w)")
        show ?thesis
        proof (cases out)
          case (Return v)
          have "pending (ths[i := Alive r']) + 1 = pending ths"
            using pending_update [OF i, of "Alive r'"] Alive Suc by simp
          then show ?thesis using Pair i Alive Suc body Return
            by (auto simp: worker_step_def workers_ran_def nth_list_update effect_def)
        next
          case (Raise m)
          have "pending (ths[i := Stopped]) + Suc r' = pending ths"
            using pending_update [OF i, of Stopped] Alive Suc by simp
          then show ?thesis using Pair i Alive Suc body Raise
            by (auto simp: worker_step_def workers_ran_def nth_list_update effect_def)
        qed
      qed
    qed
  qed
qed

lemma workers_ran_fold:
  "workers_ran func args kwargs c (fold (worker_step func args kwargs) is c)"
proof (induction "is" arbitrary: c)
  case Nil
  show ?case by (simp add: workers_ran_refl)
next
  case (Cons i "is")
  show ?case
    using workers_ran_trans [OF workers_ran_step Cons.IH] by simp
qed

lemma workers_ran_funpow:
  "workers_ran func args kwargs c ((worker_step func args kwargs i ^^ n) c)"
proof (induction n)
  case 0
  show ?case by (simp add: workers_ran_refl)
next
  case (Suc n)
  show ?case
    using workers_ran_trans [OF Suc.IH workers_ran_step] by simp
qed

lemma workers_ran_interleave:
  "workers_ran func args kwargs c (interleave e func args kwargs c)"
proof (cases c)
  case (Pair ths w)
  have "workers_ran func args kwargs (ths, w) (ths, w\<lparr>slots := Suc (slots w)\<rparr>)"
    by (simp add: workers_ran_def)
  from workers_ran_trans [OF this workers_ran_fold]
  show ?thesis using Pair by (simp add: interleave_def)
qed

lemma funpow_stops:
  "i < length ths \<Longrightarrow> ths ! i = Alive r \<Longrightarrow>
   fst ((worker_step func args kwargs i ^^ Suc r) (ths, w)) ! i = Stopped"
proof (induction r arbitrary: ths w)
  case 0
  then show ?case by (simp add: worker_step_def)
next
  case (Suc r)
  obtain ths1 w1 where step: "worker_step func args kwargs i (ths, w) = (ths1, w1)"
    by (cases "worker_step func args kwargs i (ths, w)")
  have len: "i < length ths1"
    using workers_ran_step [where func = func and args = args and kwargs = kwargs and c = "(ths, w)" and i = i] step Suc.prems(1)
    by (simp add: workers_ran_def)
  have "ths1 ! i = Alive r \<or> ths1 ! i = Stopped"
    using step Suc.prems
    by (auto simp: worker_step_def split: prod.splits outcome.splits)
  then show ?case
  proof
    assume "ths1 ! i = Alive r"
    from Suc.IH [OF len this, of w1] show ?thesis
      using step by (simp add: funpow_swap1)
  next
    assume st: "ths1 ! i = Stopped"
    have "workers_ran func args kwargs (ths1, w1)
            ((worker_step func args kwargs i ^^ Suc r) (ths1, w1))"
      by (rule workers_ran_funpow)
    then have "fst ((worker_step func args kwargs i ^^ Suc r) (ths1, w1)) ! i = Stopped"
      using st len unfolding workers_ran_def by simp
    then show ?thesis using step by (simp add: funpow_swap1)
  qed
qed

lemma worker_step_Initial:
  "\<forall>j < length ths. ths ! j = Initial \<Longrightarrow> worker_step func args kwargs i (ths, w) = (ths, w)"
  by (simp add: worker_step_def)

lemma fold_worker_step_Initial:
  "\<forall>j < length ths. ths ! j = Initial \<Longrightarrow>
   fold (worker_step func args kwargs) is (ths, w) = (ths, w)"
  by (induction "is") (simp_all add: worker_step_Initial)

subsection \<open>Creating, starting and joining the threads\<close>

lemma forwards_ThreadCreate: "list_all (forwards args kwargs) (map ThreadCreate ns)"
  by (induction ns) simp_all

lemma is_call_ThreadCreate: "filter is_call (map ThreadCreate ns) = []"
  by (induction ns) simp_all


lemma is_excepthook_ThreadCreate: "filter is_excepthook (map ThreadCreate ns) = []"
  by (induction ns) simp_all

lemma list_ex_ThreadCreate: "\<not> list_ex is_excepthook (map ThreadCreate ns)"
  by (induction ns) simp_all

lemma create_threads_eq:
  "create_threads n (ths, w) =
     (ths @ replicate n Initial,
      w\<lparr>trace := trace w @ map ThreadCreate [length ths..<length ths + n]\<rparr>)"
proof (induction n arbitrary: ths w)
  case 0
  show ?case by simp
next
  case (Suc n)
  have "[length ths..<length ths + Suc n] = length ths # [Suc (length ths)..<Suc (length ths) + n]"
    by (simp add: upt_rec)
  then show ?case
    by (simp add: Suc.IH replicate_app_Cons_same)
qed

lemma thread_join_ok:
  assumes "k < length ths" and "ths ! k \<noteq> Initial"
  shows "\<exists>ths' w'. thread_join func args kwargs k (ths, w) =
            (Inr ths', w'\<lparr>trace := trace w' @ [ThreadJoin k]\<rparr>) \<and>
          workers_ran func args kwargs (ths, w) (ths', w') \<and> ths' ! k = Stopped"
proof (cases "ths ! k")
  case Initial
  with assms show ?thesis by simp
next
  case Stopped
  then show ?thesis
    using assms by (auto simp: thread_join_def workers_ran_refl intro!: exI [of _ ths] exI [of _ w])
next
  case (Alive r)
  obtain ths' w' where run: "(worker_step func args kwargs k ^^ Suc r) (ths, w) = (ths', w')"
    by (cases "(worker_step func args kwargs k ^^ Suc r) (ths, w)")
  have "workers_ran func args kwargs (ths, w)
          ((worker_step func args kwargs k ^^ Suc r) (ths, w))"
    by (rule workers_ran_funpow)
  then have "workers_ran func args kwargs (ths, w) (ths', w')"
    unfolding run .
  moreover have "fst ((worker_step func args kwargs k ^^ Suc r) (ths, w)) ! k = Stopped"
    by (rule funpow_stops [OF assms(1) Alive])
  then have "ths' ! k = Stopped"
    unfolding run by simp
  moreover have "thread_join func args kwargs k (ths, w) =
      (Inr ths', w'\<lparr>trace := trace w' @ [ThreadJoin k]\<rparr>)"
    using assms(1) Alive run by (simp add: thread_join_def del: funpow.simps)
  ultimately show ?thesis by blast
qed

lemma start_all_ok:
  assumes "distinct ks" and "\<forall>k \<in> set ks. k < length (fst c) \<and> fst c ! k = Initial"
  shows "\<exists>ths' w' xs. start_all e func args kwargs seq_iter ks c = (Inr ths', w') \<and>
           length ths' = length (fst c) \<and> ticks w' = ticks (snd c) \<and>
           (\<forall>j < length (fst c). j \<notin> set ks \<longrightarrow> (fst c ! j = Initial \<longleftrightarrow> ths' ! j = Initial)) \<and>
           (\<forall>k \<in> set ks. ths' ! k \<noteq> Initial) \<and>
           trace w' = trace (snd c) @ xs \<and> filter is_main xs = map ThreadStart ks \<and>
           list_all (forwards args kwargs) xs \<and>
           length (filter is_call xs) + pending ths' \<le> pending (fst c) + length ks * nat seq_iter \<and>
           (\<not> list_ex is_excepthook xs \<longrightarrow>
              length (filter is_call xs) + pending ths' = pending (fst c) + length ks * nat seq_iter) \<and>
           (\<forall>j < length (fst c).
              length (filter (called_by j) xs) + remaining (ths' ! j)
                \<le> remaining (fst c ! j) + (if j \<in> set ks then nat seq_iter else 0) \<and>
              (\<not> list_ex is_excepthook xs \<longrightarrow>
                 length (filter (called_by j) xs) + remaining (ths' ! j)
                   = remaining (fst c ! j) + (if j \<in> set ks then nat seq_iter else 0))) \<and>
           user w' = (effect func args kwargs ^^ length (filter is_call xs)) (user (snd c))"
  using assms
proof (induction ks arbitrary: c)
  case Nil
  show ?case by simp
next
  case (Cons k ks)
  obtain ths1 w1 where c1: "interleave e func args kwargs c = (ths1, w1)"
    by (cases "interleave e func args kwargs c")
  have ran: "workers_ran func args kwargs c (ths1, w1)"
    using workers_ran_interleave [where func = func and args = args and kwargs = kwargs and c = c and e = e] c1 by simp
  then obtain xs1 where xs1:
    "trace w1 = trace (snd c) @ xs1" "filter is_main xs1 = []"
    "list_all (forwards args kwargs) xs1"
    "length (filter is_call xs1) + pending ths1 \<le> pending (fst c)"
    "\<not> list_ex is_excepthook xs1 \<longrightarrow>
       length (filter is_call xs1) + pending ths1 = pending (fst c)"
    "\<forall>j < length (fst c).
       length (filter (called_by j) xs1) + remaining (ths1 ! j) \<le> remaining (fst c ! j) \<and>
       (\<not> list_ex is_excepthook xs1 \<longrightarrow>
          length (filter (called_by j) xs1) + remaining (ths1 ! j) = remaining (fst c ! j))"
    "user w1 = (effect func args kwargs ^^ length (filter is_call xs1)) (user (snd c))"
    unfolding workers_ran_def by auto
  have len1: "length ths1 = length (fst c)" and tk1: "ticks w1 = ticks (snd c)"
    and st1: "\<forall>j < length (fst c). (fst c ! j = Initial \<longleftrightarrow> ths1 ! j = Initial)"
    using ran unfolding workers_ran_def by auto
  have k: "k < length ths1" "ths1 ! k = Initial"
    using Cons.prems(2) len1 st1 by auto
  define ths2 where "ths2 = ths1[k := Alive (nat seq_iter)]"
  define w2 where "w2 = w1\<lparr>trace := trace w1 @ [ThreadStart k]\<rparr>"
  have start: "thread_start seq_iter k (ths1, w1) = (Inr ths2, w2)"
    using k by (simp add: thread_start_def ths2_def w2_def)
  have p2: "pending ths2 = pending ths1 + nat seq_iter"
    using pending_update [OF k(1), of "Alive (nat seq_iter)"] k(2) by (simp add: ths2_def)
  have pre: "distinct ks" "\<forall>k' \<in> set ks. k' < length (fst (ths2, w2)) \<and> fst (ths2, w2) ! k' = Initial"
    using Cons.prems len1 st1 by (auto simp: ths2_def nth_list_update)
  from Cons.IH [OF pre] obtain ths' w' xs where rest:
    "start_all e func args kwargs seq_iter ks (ths2, w2) = (Inr ths', w')"
    "length ths' = length ths2" "ticks w' = ticks w2"
    "\<forall>j < length ths2. j \<notin> set ks \<longrightarrow> (ths2 ! j = Initial \<longleftrightarrow> ths' ! j = Initial)"
    "\<forall>k \<in> set ks. ths' ! k \<noteq> Initial"
    "trace w' = trace w2 @ xs" "filter is_main xs = map ThreadStart ks"
    "list_all (forwards args kwargs) xs"
    "length (filter is_call xs) + pending ths' \<le> pending ths2 + length ks * nat seq_iter"
    "\<not> list_ex is_excepthook xs \<longrightarrow>
       length (filter is_call xs) + pending ths' = pending ths2 + length ks * nat seq_iter"
    "\<forall>j < length ths2.
       length (filter (called_by j) xs) + remaining (ths' ! j)
         \<le> remaining (ths2 ! j) + (if j \<in> set ks then nat seq_iter else 0) \<and>
       (\<not> list_ex is_excepthook xs \<longrightarrow>
          length (filter (called_by j) xs) + remaining (ths' ! j)
            = remaining (ths2 ! j) + (if j \<in> set ks then nat seq_iter else 0))"
    "user w' = (effect func args kwargs ^^ length (filter is_call xs)) (user w2)"
    by auto
  have len2: "length ths2 = length (fst c)" using len1 by (simp add: ths2_def)
  have knot: "k \<notin> set ks" using Cons.prems(1) by simp
  have "start_all e func args kwargs seq_iter (k # ks) c = (Inr ths', w')"
    using c1 start rest(1) by simp
  moreover have "length ths' = length (fst c)" using rest(2) len2 by simp
  moreover have "ticks w' = ticks (snd c)" using rest(3) tk1 by (simp add: w2_def)
  moreover have "\<forall>j < length (fst c). j \<notin> set (k # ks) \<longrightarrow>
        (fst c ! j = Initial \<longleftrightarrow> ths' ! j = Initial)"
    using rest(4) st1 len2 by (auto simp: ths2_def nth_list_update)
  moreover have "\<forall>k' \<in> set (k # ks). ths' ! k' \<noteq> Initial"
  proof -
    have "ths2 ! k \<noteq> Initial" and "k < length ths2"
      using k(1) by (simp_all add: ths2_def)
    moreover from rest(4) have "k < length ths2 \<longrightarrow> k \<notin> set ks \<longrightarrow>
        (ths2 ! k = Initial \<longleftrightarrow> ths' ! k = Initial)"
      by (rule spec)
    ultimately have "ths' ! k \<noteq> Initial" using knot by blast
    then show ?thesis using rest(5) by simp
  qed
  moreover have "trace w' = trace (snd c) @ (xs1 @ ThreadStart k # xs)"
    using rest(6) xs1(1) by (simp add: w2_def)
  moreover have "filter is_main (xs1 @ ThreadStart k # xs) = map ThreadStart (k # ks)"
    using rest(7) xs1(2) by simp
  moreover have "list_all (forwards args kwargs) (xs1 @ ThreadStart k # xs)"
    using rest(8) xs1(3) by simp
  moreover have "length (filter is_call (xs1 @ ThreadStart k # xs)) + pending ths'
        \<le> pending (fst c) + length (k # ks) * nat seq_iter"
    using rest(9) xs1(4) p2 by simp
  moreover have "\<not> list_ex is_excepthook (xs1 @ ThreadStart k # xs) \<longrightarrow>
      length (filter is_call (xs1 @ ThreadStart k # xs)) + pending ths'
        = pending (fst c) + length (k # ks) * nat seq_iter"
    using rest(10) xs1(5) p2 by auto
  moreover have "\<forall>j < length (fst c).
      length (filter (called_by j) (xs1 @ ThreadStart k # xs)) + remaining (ths' ! j)
        \<le> remaining (fst c ! j) + (if j \<in> set (k # ks) then nat seq_iter else 0) \<and>
      (\<not> list_ex is_excepthook (xs1 @ ThreadStart k # xs) \<longrightarrow>
         length (filter (called_by j) (xs1 @ ThreadStart k # xs)) + remaining (ths' ! j)
           = remaining (fst c ! j) + (if j \<in> set (k # ks) then nat seq_iter else 0))"
  proof (intro allI impI)
    fix j assume j: "j < length (fst c)"
    then have j2: "j < length ths2" using len2 by simp
    have r2: "remaining (ths2 ! j) = remaining (ths1 ! j) + (if j = k then nat seq_iter else 0)"
      using k j len1 by (auto simp: ths2_def nth_list_update)
    from xs1(6) j have a:
      "length (filter (called_by j) xs1) + remaining (ths1 ! j) \<le> remaining (fst c ! j)"
      "\<not> list_ex is_excepthook xs1 \<longrightarrow>
         length (filter (called_by j) xs1) + remaining (ths1 ! j) = remaining (fst c ! j)"
      by simp_all
    from rest(11) j2 have b:
      "length (filter (called_by j) xs) + remaining (ths' ! j)
         \<le> remaining (ths2 ! j) + (if j \<in> set ks then nat seq_iter else 0)"
      "\<not> list_ex is_excepthook xs \<longrightarrow>
         length (filter (called_by j) xs) + remaining (ths' ! j)
           = remaining (ths2 ! j) + (if j \<in> set ks then nat seq_iter else 0)"
      by simp_all
    show "length (filter (called_by j) (xs1 @ ThreadStart k # xs)) + remaining (ths' ! j)
        \<le> remaining (fst c ! j) + (if j \<in> set (k # ks) then nat seq_iter else 0) \<and>
      (\<not> list_ex is_excepthook (xs1 @ ThreadStart k # xs) \<longrightarrow>
         length (filter (called_by j) (xs1 @ ThreadStart k # xs)) + remaining (ths' ! j)
           = remaining (fst c ! j) + (if j \<in> set (k # ks) then nat seq_iter else 0))"
      using a b r2 knot by (auto split: if_splits)
  qed
  moreover have "user w' =
      (effect func args kwargs ^^ length (filter is_call (xs1 @ ThreadStart k # xs))) (user (snd c))"
    using rest(12) xs1(7) by (simp add: funpow_plus w2_def)
  ultimately show ?case by blast
qed

lemma start_all_first:
  assumes "distinct (k # ks)"
    and "\<forall>j < length ths. ths ! j = Initial"
    and "\<forall>k' \<in> set (k # ks). k' < length ths"
  shows "\<exists>ths' w' ys. start_all e func args kwargs seq_iter (k # ks) (ths, w) = (Inr ths', w') \<and>
           trace w' = trace w @ ThreadStart k # ys"
proof -
  define w1 where "w1 = w\<lparr>slots := Suc (slots w)\<rparr>"
  have c1: "interleave e func args kwargs (ths, w) = (ths, w1)"
    using assms(2) by (simp add: interleave_def fold_worker_step_Initial w1_def)
  define ths2 where "ths2 = ths[k := Alive (nat seq_iter)]"
  define w2 where "w2 = w1\<lparr>trace := trace w1 @ [ThreadStart k]\<rparr>"
  have start: "thread_start seq_iter k (ths, w1) = (Inr ths2, w2)"
    using assms(2,3) by (simp add: thread_start_def ths2_def w2_def)
  have pre: "distinct ks" "\<forall>k' \<in> set ks. k' < length (fst (ths2, w2)) \<and> fst (ths2, w2) ! k' = Initial"
    using assms by (auto simp: ths2_def nth_list_update)
  from start_all_ok [OF pre, of e func args kwargs seq_iter] obtain ths' w' xs where
    "start_all e func args kwargs seq_iter ks (ths2, w2) = (Inr ths', w')"
    "trace w' = trace w2 @ xs"
    by auto
  then have "start_all e func args kwargs seq_iter (k # ks) (ths, w) = (Inr ths', w')"
    and "trace w' = trace w @ ThreadStart k # xs"
    using c1 start by (simp_all add: w2_def w1_def)
  then show ?thesis by blast
qed

lemma join_all_ok:
  assumes "\<forall>k \<in> set ks. k < length (fst c) \<and> fst c ! k \<noteq> Initial"
  shows "\<exists>ths' w' xs. join_all e func args kwargs ks c = (Inr ths', w') \<and>
           length ths' = length (fst c) \<and> ticks w' = ticks (snd c) \<and>
           (\<forall>j < length (fst c).
              (fst c ! j = Initial \<longleftrightarrow> ths' ! j = Initial) \<and>
              (fst c ! j = Stopped \<longrightarrow> ths' ! j = Stopped)) \<and>
           (\<forall>k \<in> set ks. ths' ! k = Stopped) \<and>
           trace w' = trace (snd c) @ xs \<and> filter is_main xs = map ThreadJoin ks \<and>
           list_all (forwards args kwargs) xs \<and>
           (ks \<noteq> [] \<longrightarrow> xs \<noteq> [] \<and> last xs = ThreadJoin (last ks)) \<and>
           length (filter is_call xs) + pending ths' \<le> pending (fst c) \<and>
           (\<not> list_ex is_excepthook xs \<longrightarrow>
              length (filter is_call xs) + pending ths' = pending (fst c)) \<and>
           (\<forall>j < length (fst c).
              length (filter (called_by j) xs) + remaining (ths' ! j) \<le> remaining (fst c ! j) \<and>
              (\<not> list_ex is_excepthook xs \<longrightarrow>
                 length (filter (called_by j) xs) + remaining (ths' ! j) = remaining (fst c ! j))) \<and>
           user w' = (effect func args kwargs ^^ length (filter is_call xs)) (user (snd c))"
  using assms
proof (induction ks arbitrary: c)
  case Nil
  show ?case by simp
next
  case (Cons k ks)
  obtain ths1 w1 where c1: "interleave e func args kwargs c = (ths1, w1)"
    by (cases "interleave e func args kwargs c")
  have ran1: "workers_ran func args kwargs c (ths1, w1)"
    using workers_ran_interleave [where func = func and args = args and kwargs = kwargs and c = c and e = e] c1 by simp
  have len1: "length ths1 = length (fst c)"
    and st1: "\<forall>j < length (fst c). (fst c ! j = Initial \<longleftrightarrow> ths1 ! j = Initial)"
    using ran1 unfolding workers_ran_def by auto
  have k: "k < length ths1" "ths1 ! k \<noteq> Initial"
    using Cons.prems len1 st1 by auto
  from thread_join_ok [OF k, of func args kwargs w1] obtain ths2 w2 where
    join: "thread_join func args kwargs k (ths1, w1) =
             (Inr ths2, w2\<lparr>trace := trace w2 @ [ThreadJoin k]\<rparr>)"
    and ran2: "workers_ran func args kwargs (ths1, w1) (ths2, w2)"
    and stopped: "ths2 ! k = Stopped"
    by blast
  have ran: "workers_ran func args kwargs c (ths2, w2)"
    by (rule workers_ran_trans [OF ran1 ran2])
  then obtain xs1 where xs1:
    "trace w2 = trace (snd c) @ xs1" "filter is_main xs1 = []"
    "list_all (forwards args kwargs) xs1"
    "length (filter is_call xs1) + pending ths2 \<le> pending (fst c)"
    "\<not> list_ex is_excepthook xs1 \<longrightarrow>
       length (filter is_call xs1) + pending ths2 = pending (fst c)"
    "\<forall>j < length (fst c).
       length (filter (called_by j) xs1) + remaining (ths2 ! j) \<le> remaining (fst c ! j) \<and>
       (\<not> list_ex is_excepthook xs1 \<longrightarrow>
          length (filter (called_by j) xs1) + remaining (ths2 ! j) = remaining (fst c ! j))"
    "user w2 = (effect func args kwargs ^^ length (filter is_call xs1)) (user (snd c))"
    unfolding workers_ran_def by auto
  have len2: "length ths2 = length (fst c)" and tk2: "ticks w2 = ticks (snd c)"
    and st2: "\<forall>j < length (fst c). (fst c ! j = Initial \<longleftrightarrow> ths2 ! j = Initial) \<and>
                (fst c ! j = Stopped \<longrightarrow> ths2 ! j = Stopped)"
    using ran unfolding workers_ran_def by auto
  define w3 where "w3 = w2\<lparr>trace := trace w2 @ [ThreadJoin k]\<rparr>"
  have pre: "\<forall>k' \<in> set ks. k' < length (fst (ths2, w3)) \<and> fst (ths2, w3) ! k' \<noteq> Initial"
    using Cons.prems len2 st2 by auto
  from Cons.IH [OF pre] obtain ths' w' xs where rest:
    "join_all e func args kwargs ks (ths2, w3) = (Inr ths', w')"
    "length ths' = length ths2" "ticks w' = ticks w3"
    "\<forall>j < length ths2. (ths2 ! j = Initial \<longleftrightarrow> ths' ! j = Initial) \<and>
        (ths2 ! j = Stopped \<longrightarrow> ths' ! j = Stopped)"
    "\<forall>k \<in> set ks. ths' ! k = Stopped"
    "trace w' = trace w3 @ xs" "filter is_main xs = map ThreadJoin ks"
    "list_all (forwards args kwargs) xs"
    "ks \<noteq> [] \<longrightarrow> xs \<noteq> [] \<and> last xs = ThreadJoin (last ks)"
    "length (filter is_call xs) + pending ths' \<le> pending ths2"
    "\<not> list_ex is_excepthook xs \<longrightarrow> length (filter is_call xs) + pending ths' = pending ths2"
    "\<forall>j < length ths2.
       length (filter (called_by j) xs) + remaining (ths' ! j) \<le> remaining (ths2 ! j) \<and>
       (\<not> list_ex is_excepthook xs \<longrightarrow>
          length (filter (called_by j) xs) + remaining (ths' ! j) = remaining (ths2 ! j))"
    "user w' = (effect func args kwargs ^^ length (filter is_call xs)) (user w3)"
    by auto
  have nil: "ks = [] \<Longrightarrow> xs = []"
    using rest(1,6) by simp
  have "join_all e func args kwargs (k # ks) c = (Inr ths', w')"
    using c1 join rest(1) by (simp add: w3_def)
  moreover have "length ths' = length (fst c)" using rest(2) len2 by simp
  moreover have "ticks w' = ticks (snd c)" using rest(3) tk2 by (simp add: w3_def)
  moreover have "\<forall>j < length (fst c).
              (fst c ! j = Initial \<longleftrightarrow> ths' ! j = Initial) \<and>
              (fst c ! j = Stopped \<longrightarrow> ths' ! j = Stopped)"
    using rest(4) st2 len2 by simp
  moreover have "\<forall>k' \<in> set (k # ks). ths' ! k' = Stopped"
    using rest(4,5) stopped k(1) len1 len2 by simp
  moreover have "trace w' = trace (snd c) @ (xs1 @ ThreadJoin k # xs)"
    using rest(6) xs1(1) by (simp add: w3_def)
  moreover have "filter is_main (xs1 @ ThreadJoin k # xs) = map ThreadJoin (k # ks)"
    using rest(7) xs1(2) by simp
  moreover have "list_all (forwards args kwargs) (xs1 @ ThreadJoin k # xs)"
    using rest(8) xs1(3) by simp
  moreover have "xs1 @ ThreadJoin k # xs \<noteq> [] \<and>
      last (xs1 @ ThreadJoin k # xs) = ThreadJoin (last (k # ks))"
    using rest(9) nil by (cases "ks = []") simp_all
  moreover have "length (filter is_call (xs1 @ ThreadJoin k # xs)) + pending ths'
        \<le> pending (fst c)"
    using rest(10) xs1(4) by simp
  moreover have "\<not> list_ex is_excepthook (xs1 @ ThreadJoin k # xs) \<longrightarrow>
      length (filter is_call (xs1 @ ThreadJoin k # xs)) + pending ths' = pending (fst c)"
    using rest(11) xs1(5) by auto
  moreover have "\<forall>j < length (fst c).
      length (filter (called_by j) (xs1 @ ThreadJoin k # xs)) + remaining (ths' ! j)
        \<le> remaining (fst c ! j) \<and>
      (\<not> list_ex is_excepthook (xs1 @ ThreadJoin k # xs) \<longrightarrow>
         length (filter (called_by j) (xs1 @ ThreadJoin k # xs)) + remaining (ths' ! j)
           = remaining (fst c ! j))"
  proof (intro allI impI)
    fix j assume j: "j < length (fst c)"
    then have j2: "j < length ths2" using len2 by simp
    from xs1(6) j have a:
      "length (filter (called_by j) xs1) + remaining (ths2 ! j) \<le> remaining (fst c ! j)"
      "\<not> list_ex is_excepthook xs1 \<longrightarrow>
         length (filter (called_by j) xs1) + remaining (ths2 ! j) = remaining (fst c ! j)"
      by simp_all
    from rest(12) j2 have b:
      "length (filter (called_by j) xs) + remaining (ths' ! j) \<le> remaining (ths2 ! j)"
      "\<not> list_ex is_excepthook xs \<longrightarrow>
         length (filter (called_by j) xs) + remaining (ths' ! j) = remaining (ths2 ! j)"
      by simp_all
    show "length (filter (called_by j) (xs1 @ ThreadJoin k # xs)) + remaining (ths' ! j)
        \<le> remaining (fst c ! j) \<and>
      (\<not> list_ex is_excepthook (xs1 @ ThreadJoin k # xs) \<longrightarrow>
         length (filter (called_by j) (xs1 @ ThreadJoin k # xs)) + remaining (ths' ! j)
           = remaining (fst c ! j))"
      using a b by auto
  qed
  moreover have "user w' =
      (effect func args kwargs ^^ length (filter is_call (xs1 @ ThreadJoin k # xs))) (user (snd c))"
    using rest(13) xs1(7) by (simp add: funpow_plus w3_def)
  ultimately show ?case by blast
qed

subsection \<open>A trial, the loop of trials, the wrapper\<close>

text \<open>
  A trial never fails: each thread is started once and joined after its start, so the
  \<open>RuntimeError\<close> branches of the thread library are not reached. It reads the clock
  twice and returns the difference of the two readings.
\<close>

lemma trial_ok:
  "\<exists>w' body.
     trial e func args kwargs n_threads seq_iter w =
       (Inr (clock e (Suc (ticks w)) - clock e (ticks w)), w') \<and>
     ticks w' = Suc (Suc (ticks w)) \<and>
     trace w' = trace w @ PerfCounter (clock e (ticks w)) # map ThreadCreate [0..<nat n_threads]
                  @ body @ [PerfCounter (clock e (Suc (ticks w)))] \<and>
     filter is_main body = map ThreadStart [0..<nat n_threads] @ map ThreadJoin [0..<nat n_threads] \<and>
     list_all (forwards args kwargs) body \<and>
     (0 < n_threads \<longrightarrow> hd body = ThreadStart 0 \<and> last body = ThreadJoin (nat n_threads - 1)) \<and>
     length (filter is_call body) \<le> nat n_threads * nat seq_iter \<and>
     (\<not> list_ex is_excepthook body \<longrightarrow>
        length (filter is_call body) = nat n_threads * nat seq_iter) \<and>
     (\<forall>j < nat n_threads.
        length (filter (called_by j) body) \<le> nat seq_iter \<and>
        (\<not> list_ex is_excepthook body \<longrightarrow>
           length (filter (called_by j) body) = nat seq_iter)) \<and>
     user w' = (effect func args kwargs ^^ length (filter is_call body)) (user w)"
proof -
  define n where "n = nat n_threads"
  define t0 where "t0 = clock e (ticks w)"
  define w1 where "w1 = w\<lparr>ticks := Suc (ticks w), trace := trace w @ [PerfCounter t0]\<rparr>"
  define ths where "ths = replicate n Initial"
  define w2 where "w2 = w1\<lparr>trace := trace w1 @ map ThreadCreate [0..<n]\<rparr>"
  have pc: "perf_counter e w = (t0, w1)"
    by (simp add: perf_counter_def t0_def w1_def Let_def)
  have cr: "create_threads (nat n_threads) ([], w1) = (ths, w2)"
    by (simp add: create_threads_eq ths_def w2_def n_def)
  have lths: "length ths = n" by (simp add: ths_def)
  have all_init: "\<forall>j < length ths. ths ! j = Initial" by (simp add: ths_def)
  have pre_s: "distinct [0..<n]"
    "\<forall>k \<in> set [0..<n]. k < length (fst (ths, w2)) \<and> fst (ths, w2) ! k = Initial"
    by (simp_all add: ths_def)
  from start_all_ok [OF pre_s, of e func args kwargs seq_iter] obtain ths3 w3 xs where s:
    "start_all e func args kwargs seq_iter [0..<n] (ths, w2) = (Inr ths3, w3)"
    "length ths3 = n" "ticks w3 = ticks w2"
    "\<forall>k \<in> set [0..<n]. ths3 ! k \<noteq> Initial"
    "trace w3 = trace w2 @ xs" "filter is_main xs = map ThreadStart [0..<n]"
    "list_all (forwards args kwargs) xs"
    "length (filter is_call xs) + pending ths3 \<le> pending ths + n * nat seq_iter"
    "\<not> list_ex is_excepthook xs \<longrightarrow>
       length (filter is_call xs) + pending ths3 = pending ths + n * nat seq_iter"
    "\<forall>j < n.
       length (filter (called_by j) xs) + remaining (ths3 ! j)
         \<le> remaining (ths ! j) + (if j \<in> set [0..<n] then nat seq_iter else 0) \<and>
       (\<not> list_ex is_excepthook xs \<longrightarrow>
          length (filter (called_by j) xs) + remaining (ths3 ! j)
            = remaining (ths ! j) + (if j \<in> set [0..<n] then nat seq_iter else 0))"
    "user w3 = (effect func args kwargs ^^ length (filter is_call xs)) (user w2)"
    unfolding fst_conv snd_conv lths length_upt diff_zero by blast
  have pre_j: "\<forall>k \<in> set [0..<n]. k < length (fst (ths3, w3)) \<and> fst (ths3, w3) ! k \<noteq> Initial"
    using s(2,4) by simp
  from join_all_ok [OF pre_j, of e func args kwargs] obtain ths4 w4 ys where j:
    "join_all e func args kwargs [0..<n] (ths3, w3) = (Inr ths4, w4)"
    "length ths4 = n" "ticks w4 = ticks w3"
    "\<forall>k \<in> set [0..<n]. ths4 ! k = Stopped"
    "trace w4 = trace w3 @ ys" "filter is_main ys = map ThreadJoin [0..<n]"
    "list_all (forwards args kwargs) ys"
    "[0..<n] \<noteq> [] \<longrightarrow> ys \<noteq> [] \<and> last ys = ThreadJoin (last [0..<n])"
    "length (filter is_call ys) + pending ths4 \<le> pending ths3"
    "\<not> list_ex is_excepthook ys \<longrightarrow> length (filter is_call ys) + pending ths4 = pending ths3"
    "\<forall>j < n.
       length (filter (called_by j) ys) + remaining (ths4 ! j) \<le> remaining (ths3 ! j) \<and>
       (\<not> list_ex is_excepthook ys \<longrightarrow>
          length (filter (called_by j) ys) + remaining (ths4 ! j) = remaining (ths3 ! j))"
    "user w4 = (effect func args kwargs ^^ length (filter is_call ys)) (user w3)"
    unfolding fst_conv snd_conv s(2) by blast
  have tk4: "ticks w4 = Suc (ticks w)"
    using j(3) s(3) by (simp add: w2_def w1_def)
  define t1 where "t1 = clock e (Suc (ticks w))"
  define w5 where "w5 = w4\<lparr>ticks := Suc (ticks w4), trace := trace w4 @ [PerfCounter t1]\<rparr>"
  have pc2: "perf_counter e w4 = (t1, w5)"
    by (simp add: perf_counter_def t1_def w5_def Let_def tk4)
  have p0: "pending ths = 0" by (simp add: ths_def pending_replicate_Initial)
  have p4: "pending ths4 = 0"
    using j(2,4) by (intro pending_all_Stopped) simp
  have run: "trial e func args kwargs n_threads seq_iter w = (Inr (t1 - t0), w5)"
    using pc cr s(1) j(1) pc2 lths s(2) by (simp add: trial_def)
  have tr: "trace w5 = trace w @ PerfCounter t0 # map ThreadCreate [0..<n] @ (xs @ ys) @ [PerfCounter t1]"
    using j(5) s(5) by (simp add: w5_def w2_def w1_def)
  have ends: "0 < n_threads \<longrightarrow> hd (xs @ ys) = ThreadStart 0 \<and> last (xs @ ys) = ThreadJoin (n - 1)"
  proof
    assume "0 < n_threads"
    then have pos: "0 < n" by (simp add: n_def)
    then have upt: "[0..<n] = 0 # [1..<n]" by (simp add: upt_rec)
    have "distinct (0 # [1..<n])" "\<forall>k' \<in> set (0 # [1..<n]). k' < length ths"
      using lths pos by auto
    from start_all_first [OF this(1) all_init this(2), of e func args kwargs seq_iter w2]
    obtain zs where "trace w3 = trace w2 @ ThreadStart 0 # zs"
      using s(1) upt by auto
    then have "xs = ThreadStart 0 # zs" using s(5) by simp
    moreover have "ys \<noteq> []" "last ys = ThreadJoin (n - 1)"
      using j(8) pos by (simp_all add: last_upt)
    ultimately show "hd (xs @ ys) = ThreadStart 0 \<and> last (xs @ ys) = ThreadJoin (n - 1)"
      by simp
  qed
  have "ticks w5 = Suc (Suc (ticks w))" using tk4 by (simp add: w5_def)
  moreover have "filter is_main (xs @ ys) = map ThreadStart [0..<n] @ map ThreadJoin [0..<n]"
    using s(6) j(6) by simp
  moreover have "list_all (forwards args kwargs) (xs @ ys)"
    using s(7) j(7) by simp
  moreover have "length (filter is_call (xs @ ys)) \<le> n * nat seq_iter"
    using s(8) j(9) p0 p4 by simp
  moreover have "\<not> list_ex is_excepthook (xs @ ys) \<longrightarrow>
       length (filter is_call (xs @ ys)) = n * nat seq_iter"
    using s(9) j(10) p0 p4 by auto
  moreover have "\<forall>i < n.
        length (filter (called_by i) (xs @ ys)) \<le> nat seq_iter \<and>
        (\<not> list_ex is_excepthook (xs @ ys) \<longrightarrow>
           length (filter (called_by i) (xs @ ys)) = nat seq_iter)"
  proof (intro allI impI)
    fix i assume i: "i < n"
    have r0: "remaining (ths ! i) = 0" using i by (simp add: ths_def)
    have r4: "remaining (ths4 ! i) = 0" using j(4) i by simp
    from s(10) i r0 have a:
      "length (filter (called_by i) xs) + remaining (ths3 ! i) \<le> nat seq_iter"
      "\<not> list_ex is_excepthook xs \<longrightarrow>
         length (filter (called_by i) xs) + remaining (ths3 ! i) = nat seq_iter"
      by auto
    from j(11) i r4 have b:
      "length (filter (called_by i) ys) \<le> remaining (ths3 ! i)"
      "\<not> list_ex is_excepthook ys \<longrightarrow>
         length (filter (called_by i) ys) = remaining (ths3 ! i)"
      by auto
    show "length (filter (called_by i) (xs @ ys)) \<le> nat seq_iter \<and>
        (\<not> list_ex is_excepthook (xs @ ys) \<longrightarrow>
           length (filter (called_by i) (xs @ ys)) = nat seq_iter)"
      using a b by auto
  qed
  moreover have "user w5 = (effect func args kwargs ^^ length (filter is_call (xs @ ys))) (user w)"
    using s(11) j(12) by (simp add: funpow_plus w5_def w2_def w1_def)
  ultimately show ?thesis
    using run tr ends tk4 unfolding t0_def t1_def n_def by blast
qed

lemma trials_ok:
  "\<exists>w' xs.
     trials e func args kwargs n_threads seq_iter m results w =
       (Inr (results @ timings e (ticks w) m), w') \<and>
     ticks w' = ticks w + 2 * m \<and>
     trace w' = trace w @ xs \<and>
     list_all (forwards args kwargs) xs \<and>
     length (filter is_call xs) \<le> m * (nat n_threads * nat seq_iter) \<and>
     (\<not> list_ex is_excepthook xs \<longrightarrow>
        length (filter is_call xs) = m * (nat n_threads * nat seq_iter)) \<and>
     user w' = (effect func args kwargs ^^ length (filter is_call xs)) (user w)"
proof (induction m arbitrary: results w)
  case 0
  show ?case by simp
next
  case (Suc m)
  from trial_ok [of e func args kwargs n_threads seq_iter w] obtain w1 body where t:
    "trial e func args kwargs n_threads seq_iter w =
       (Inr (clock e (Suc (ticks w)) - clock e (ticks w)), w1)"
    "ticks w1 = Suc (Suc (ticks w))"
    "trace w1 = trace w @ PerfCounter (clock e (ticks w)) # map ThreadCreate [0..<nat n_threads]
                  @ body @ [PerfCounter (clock e (Suc (ticks w)))]"
    "list_all (forwards args kwargs) body"
    "length (filter is_call body) \<le> nat n_threads * nat seq_iter"
    "\<not> list_ex is_excepthook body \<longrightarrow>
        length (filter is_call body) = nat n_threads * nat seq_iter"
    "user w1 = (effect func args kwargs ^^ length (filter is_call body)) (user w)"
    by blast
  define ev where "ev = PerfCounter (clock e (ticks w)) # map ThreadCreate [0..<nat n_threads]
                  @ body @ [PerfCounter (clock e (Suc (ticks w)))]"
  have ev: "trace w1 = trace w @ ev" "list_all (forwards args kwargs) ev"
    "length (filter is_call ev) = length (filter is_call body)"
    "list_ex is_excepthook ev = list_ex is_excepthook body"
    using t(3,4)
    by (simp_all add: ev_def forwards_ThreadCreate is_call_ThreadCreate list_ex_ThreadCreate)
  from Suc.IH [of "results @ [clock e (Suc (ticks w)) - clock e (ticks w)]" w1]
  obtain w' xs where r:
    "trials e func args kwargs n_threads seq_iter m
       (results @ [clock e (Suc (ticks w)) - clock e (ticks w)]) w1 =
       (Inr ((results @ [clock e (Suc (ticks w)) - clock e (ticks w)]) @ timings e (ticks w1) m), w')"
    "ticks w' = ticks w1 + 2 * m"
    "trace w' = trace w1 @ xs"
    "list_all (forwards args kwargs) xs"
    "length (filter is_call xs) \<le> m * (nat n_threads * nat seq_iter)"
    "\<not> list_ex is_excepthook xs \<longrightarrow>
        length (filter is_call xs) = m * (nat n_threads * nat seq_iter)"
    "user w' = (effect func args kwargs ^^ length (filter is_call xs)) (user w1)"
    by blast
  have "trials e func args kwargs n_threads seq_iter (Suc m) results w =
       (Inr (results @ timings e (ticks w) (Suc m)), w')"
    using t(1,2) r(1) by simp
  moreover have "ticks w' = ticks w + 2 * Suc m" using r(2) t(2) by simp
  moreover have "trace w' = trace w @ (ev @ xs)" using r(3) ev(1) by simp
  moreover have "list_all (forwards args kwargs) (ev @ xs)" using r(4) ev(2) by simp
  moreover have "length (filter is_call (ev @ xs)) \<le> Suc m * (nat n_threads * nat seq_iter)"
    using r(5) t(5) ev(3) by simp
  moreover have "\<not> list_ex is_excepthook (ev @ xs) \<longrightarrow>
        length (filter is_call (ev @ xs)) = Suc m * (nat n_threads * nat seq_iter)"
    using r(6) t(6) ev(3,4) by simp
  moreover have "user w' = (effect func args kwargs ^^ length (filter is_call (ev @ xs))) (user w)"
    using r(7) t(7) ev(3) by (simp add: funpow_plus)
  ultimately show ?case by blast
qed

lemma length_timings: "length (timings e t m) = m"
  by (induction m arbitrary: t) simp_all

lemma statistics_mean_Inr:
  "data \<noteq> [] \<Longrightarrow> statistics_mean data = Inr (sum_list data / of_nat (length data))"
  by (cases data) (simp_all add: statistics_mean_def)

lemma statistics_variance_Inr:
  "2 \<le> length data \<Longrightarrow> \<exists>v. statistics_variance data = Inr v \<and> 0 \<le> v"
  by (auto simp: statistics_variance_def Let_def intro!: divide_nonneg_nonneg sum_list_nonneg)

lemma wrapper_fails:
  assumes "iter < 1"
  shows "wrapper e n_threads seq_iter iter func args kwargs w = (Inl StatisticsError, w)"
proof -
  have "nat iter = 0" using assms by simp
  then show ?thesis by (simp add: wrapper_def statistics_mean_def)
qed

lemma wrapper_ok:
  assumes "1 \<le> iter"
  shows "\<exists>avg var w' xs.
     wrapper e n_threads seq_iter iter func args kwargs w =
       (Inr [(''fun'', PStr (fun_name func)), (''args'', PTuple args),
             (''n_threads'', PInt n_threads), (''seq_iter'', PInt seq_iter), (''iter'', PInt iter),
             (''mean'', PFloat avg), (''variance'', var)], w') \<and>
     statistics_mean (timings e (ticks w) (nat iter)) = Inr avg \<and>
     (iter = 1 \<longrightarrow> var = PInt 0) \<and>
     (iter \<noteq> 1 \<longrightarrow> (\<exists>v. statistics_variance (timings e (ticks w) (nat iter)) = Inr v \<and>
                        var = PFloat v \<and> 0 \<le> v)) \<and>
     trace w' = trace w @ xs \<and>
     list_all (forwards args kwargs) xs \<and>
     length (filter is_call xs) \<le> nat iter * (nat n_threads * nat seq_iter) \<and>
     (\<not> list_ex is_excepthook xs \<longrightarrow>
        length (filter is_call xs) = nat iter * (nat n_threads * nat seq_iter)) \<and>
     user w' = (effect func args kwargs ^^ length (filter is_call xs)) (user w)"
proof -
  define results where "results = timings e (ticks w) (nat iter)"
  from trials_ok [of e func args kwargs n_threads seq_iter "nat iter" "[]" w]
  obtain w' xs where t:
    "trials e func args kwargs n_threads seq_iter (nat iter) [] w = (Inr results, w')"
    "trace w' = trace w @ xs"
    "list_all (forwards args kwargs) xs"
    "length (filter is_call xs) \<le> nat iter * (nat n_threads * nat seq_iter)"
    "\<not> list_ex is_excepthook xs \<longrightarrow>
        length (filter is_call xs) = nat iter * (nat n_threads * nat seq_iter)"
    "user w' = (effect func args kwargs ^^ length (filter is_call xs)) (user w)"
    unfolding results_def by auto
  have len: "length results = nat iter" by (simp add: results_def length_timings)
  then have ne: "results \<noteq> []" using assms by auto
  define avg where "avg = sum_list results / of_nat (length results)"
  have m: "statistics_mean results = Inr avg"
    using statistics_mean_Inr [OF ne] by (simp add: avg_def)
  show ?thesis
  proof (cases "iter = 1")
    case True
    then have "wrapper e n_threads seq_iter iter func args kwargs w =
       (Inr [(''fun'', PStr (fun_name func)), (''args'', PTuple args),
             (''n_threads'', PInt n_threads), (''seq_iter'', PInt seq_iter), (''iter'', PInt iter),
             (''mean'', PFloat avg), (''variance'', PInt 0)], w')"
      using t(1) m by (simp add: wrapper_def)
    then show ?thesis
      using True m t(2-6) unfolding results_def by blast
  next
    case False
    then have "2 \<le> length results" using assms len by simp
    from statistics_variance_Inr [OF this] obtain v where
      v: "statistics_variance results = Inr v" "0 \<le> v" by blast
    have "wrapper e n_threads seq_iter iter func args kwargs w =
       (Inr [(''fun'', PStr (fun_name func)), (''args'', PTuple args),
             (''n_threads'', PInt n_threads), (''seq_iter'', PInt seq_iter), (''iter'', PInt iter),
             (''mean'', PFloat avg), (''variance'', PFloat v)], w')"
      using t(1) m v(1) False by (simp add: wrapper_def)
    then show ?thesis
      using False m v t(2-6) unfolding results_def by blast
  qed
qed

lemma bench_ok:
  assumes "1 \<le> iter"
  shows "\<exists>avg var w'.
     bench e n_threads seq_iter iter func args kwargs w =
       (Inr [(''fun'', PStr (fun_name func)), (''args'', PTuple args),
             (''n_threads'', PInt n_threads), (''seq_iter'', PInt seq_iter), (''iter'', PInt iter),
             (''mean'', PFloat avg), (''variance'', var)], w')"
  using wrapper_ok [OF assms, of e n_threads seq_iter func args kwargs w]
  unfolding bench_def by blast

subsection \<open>A workload that never raises\<close>

text \<open>
  When the workload returns from every state, no move of a worker adds an excepthook event
  to the trace, and so no trial does.
\<close>

lemma quiet_step:
  assumes "never_raises func args kwargs"
  shows "filter is_excepthook (trace (snd (worker_step func args kwargs i c))) =
         filter is_excepthook (trace (snd c))"
proof (cases c)
  case (Pair ths w)
  from assms obtain v s where "fun_body func args kwargs (user w) = (Return v, s)"
    unfolding never_raises_def by blast
  then show ?thesis
    using Pair by (simp add: worker_step_def split: thread.split nat.split)
qed

lemma quiet_fold:
  assumes "never_raises func args kwargs"
  shows "filter is_excepthook (trace (snd (fold (worker_step func args kwargs) is c))) =
         filter is_excepthook (trace (snd c))"
  by (induction "is" arbitrary: c) (simp_all add: quiet_step [OF assms])

lemma quiet_funpow:
  assumes "never_raises func args kwargs"
  shows "filter is_excepthook (trace (snd ((worker_step func args kwargs i ^^ n) c))) =
         filter is_excepthook (trace (snd c))"
  by (induction n) (simp_all add: quiet_step [OF assms])

lemma quiet_interleave:
  assumes "never_raises func args kwargs"
  shows "filter is_excepthook (trace (snd (interleave e func args kwargs c))) =
         filter is_excepthook (trace (snd c))"
  by (cases c) (simp add: interleave_def quiet_fold [OF assms])

lemma quiet_start:
  "filter is_excepthook (trace (snd (thread_start seq_iter k c))) =
   filter is_excepthook (trace (snd c))"
  by (cases c) (simp add: thread_start_def)

lemma quiet_join:
  assumes "never_raises func args kwargs"
  shows "filter is_excepthook (trace (snd (thread_join func args kwargs k c))) =
         filter is_excepthook (trace (snd c))"
proof (cases c)
  case (Pair ths w)
  show ?thesis
  proof (cases "k < length ths")
    case False
    then show ?thesis using Pair by (simp add: thread_join_def)
  next
    case True
    show ?thesis
    proof (cases "ths ! k")
      case (Alive r)
      obtain ths' w' where run: "(worker_step func args kwargs k ^^ Suc r) (ths, w) = (ths', w')"
        by (cases "(worker_step func args kwargs k ^^ Suc r) (ths, w)")
      have "filter is_excepthook (trace (snd ((worker_step func args kwargs k ^^ Suc r) (ths, w)))) =
            filter is_excepthook (trace (snd (ths, w)))"
        by (rule quiet_funpow [OF assms])
      then have "filter is_excepthook (trace w') = filter is_excepthook (trace w)"
        unfolding run by simp
      then show ?thesis
        using Pair True Alive run by (simp add: thread_join_def del: funpow.simps)
    qed (use Pair True in \<open>simp_all add: thread_join_def\<close>)
  qed
qed

lemma quiet_start_all:
  assumes "never_raises func args kwargs"
  shows "filter is_excepthook (trace (snd (start_all e func args kwargs seq_iter ks c))) =
         filter is_excepthook (trace (snd c))"
proof (induction ks arbitrary: c)
  case Nil
  show ?case by simp
next
  case (Cons k ks)
  obtain r w1 where st: "thread_start seq_iter k (interleave e func args kwargs c) = (r, w1)"
    by (cases "thread_start seq_iter k (interleave e func args kwargs c)")
  have "filter is_excepthook (trace w1) = filter is_excepthook (trace (snd c))"
    using quiet_start [of seq_iter k "interleave e func args kwargs c"]
      quiet_interleave [OF assms, of e c] st by simp
  then show ?case
    using st Cons.IH by (cases r) simp_all
qed

lemma quiet_join_all:
  assumes "never_raises func args kwargs"
  shows "filter is_excepthook (trace (snd (join_all e func args kwargs ks c))) =
         filter is_excepthook (trace (snd c))"
proof (induction ks arbitrary: c)
  case Nil
  show ?case by simp
next
  case (Cons k ks)
  obtain r w1 where j: "thread_join func args kwargs k (interleave e func args kwargs c) = (r, w1)"
    by (cases "thread_join func args kwargs k (interleave e func args kwargs c)")
  have "filter is_excepthook (trace w1) = filter is_excepthook (trace (snd c))"
    using quiet_join [OF assms, of k "interleave e func args kwargs c"]
      quiet_interleave [OF assms, of e c] j by simp
  then show ?case
    using j Cons.IH by (cases r) simp_all
qed

lemma quiet_trial:
  assumes "never_raises func args kwargs"
  shows "\<not> list_ex is_excepthook
           (emitted w (snd (trial e func args kwargs n_threads seq_iter w)))"
proof -
  from trial_ok [of e func args kwargs n_threads seq_iter w] obtain w' body where t:
    "trial e func args kwargs n_threads seq_iter w =
       (Inr (clock e (Suc (ticks w)) - clock e (ticks w)), w')"
    "trace w' = trace w @ PerfCounter (clock e (ticks w)) # map ThreadCreate [0..<nat n_threads]
                  @ body @ [PerfCounter (clock e (Suc (ticks w)))]"
    by blast
  define ths where "ths = replicate (nat n_threads) Initial"
  define w2 where "w2 = snd (create_threads (nat n_threads) ([], snd (perf_counter e w)))"
  have tr2: "trace w2 = trace w @ PerfCounter (clock e (ticks w)) # map ThreadCreate [0..<nat n_threads]"
    by (simp add: w2_def create_threads_eq perf_counter_def Let_def)
  have cr: "create_threads (nat n_threads) ([], snd (perf_counter e w)) = (ths, w2)"
    by (simp add: w2_def ths_def create_threads_eq)
  obtain r3 w3 where s3:
    "start_all e func args kwargs seq_iter [0..<length ths] (ths, w2) = (r3, w3)"
    by (cases "start_all e func args kwargs seq_iter [0..<length ths] (ths, w2)")
  have q3: "filter is_excepthook (trace w3) = filter is_excepthook (trace w2)"
    using quiet_start_all [OF assms, of e seq_iter "[0..<length ths]" "(ths, w2)"] s3 by simp
  have "filter is_excepthook (trace w') = filter is_excepthook (trace w2)"
  proof (cases r3)
    case (Inl err)
    then show ?thesis
      using q3 s3 cr t(1) by (simp add: trial_def perf_counter_def Let_def split: prod.splits)
  next
    case (Inr ths3)
    obtain r4 w4 where j4:
      "join_all e func args kwargs [0..<length ths3] (ths3, w3) = (r4, w4)"
      by (cases "join_all e func args kwargs [0..<length ths3] (ths3, w3)")
    have q4: "filter is_excepthook (trace w4) = filter is_excepthook (trace w3)"
      using quiet_join_all [OF assms, of e "[0..<length ths3]" "(ths3, w3)"] j4 by simp
    have "filter is_excepthook (trace (snd (trial e func args kwargs n_threads seq_iter w))) =
          filter is_excepthook (trace w2)"
      using q3 q4 s3 j4 cr Inr
      by (cases r4) (simp_all add: trial_def perf_counter_def Let_def split: prod.splits)
    then show ?thesis using t(1) by simp
  qed
  then have "filter is_excepthook body = []"
    using t(2) tr2 by (simp add: is_excepthook_ThreadCreate)
  then have "\<not> list_ex is_excepthook body"
    by (simp add: list_ex_iff filter_empty_conv)
  then show ?thesis
    using t by (simp add: emitted_def list_ex_ThreadCreate)
qed

lemma quiet_trial_filter:
  assumes "never_raises func args kwargs"
  shows "filter is_excepthook (trace (snd (trial e func args kwargs n_threads seq_iter w))) =
         filter is_excepthook (trace w)"
proof -
  from trial_ok [of e func args kwargs n_threads seq_iter w] obtain w' body where t:
    "trial e func args kwargs n_threads seq_iter w =
       (Inr (clock e (Suc (ticks w)) - clock e (ticks w)), w')"
    "trace w' = trace w @ PerfCounter (clock e (ticks w)) # map ThreadCreate [0..<nat n_threads]
                  @ body @ [PerfCounter (clock e (Suc (ticks w)))]"
    by blast
  have "\<not> list_ex is_excepthook (emitted w w')"
    using quiet_trial [OF assms, of w e n_threads seq_iter] t(1) by simp
  then have "\<not> list_ex is_excepthook body"
    using t(2) by (simp add: emitted_def list_ex_ThreadCreate)
  then have "filter is_excepthook body = []"
    by (simp add: list_ex_iff filter_empty_conv)
  then show ?thesis
    using t by (simp add: is_excepthook_ThreadCreate)
qed

lemma quiet_trials_filter:
  assumes "never_raises func args kwargs"
  shows "filter is_excepthook
           (trace (snd (trials e func args kwargs n_threads seq_iter m results w))) =
         filter is_excepthook (trace w)"
proof (induction m arbitrary: results w)
  case 0
  show ?case by simp
next
  case (Suc m)
  from trial_ok [of e func args kwargs n_threads seq_iter w] obtain w1 where t:
    "trial e func args kwargs n_threads seq_iter w =
       (Inr (clock e (Suc (ticks w)) - clock e (ticks w)), w1)"
    by blast
  have "filter is_excepthook (trace w1) = filter is_excepthook (trace w)"
    using quiet_trial_filter [OF assms, of e n_threads seq_iter w] t by simp
  then show ?case
    using t Suc.IH [of "results @ [clock e (Suc (ticks w)) - clock e (ticks w)]" w1] by simp
qed

lemma snd_wrapper:
  "snd (wrapper e n_threads seq_iter iter func args kwargs w) =
   snd (trials e func args kwargs n_threads seq_iter (nat iter) [] w)"
  by (simp add: wrapper_def split: prod.splits sum.splits)


lemma effect_recorder:
  "(effect recorder args kwargs ^^ k) received = received @ replicate k (args, kwargs)"
  by (induction k) (simp_all add: effect_def recorder_def replicate_append_same)

text \<open>
  What the recording workload has written down after a run: one entry for each of the
  \<open>iter * n_threads * seq_iter\<close> invocations, each with the positional and the keyword
  arguments of the wrapper's call.
\<close>

lemma recorder_log:
  "user (snd (wrapper e n_threads seq_iter iter recorder args kwargs w)) =
   user w @ replicate (nat iter * (nat n_threads * nat seq_iter)) (args, kwargs)"
proof (cases "iter < 1")
  case True
  then show ?thesis by (simp add: wrapper_fails)
next
  case False
  then have it: "1 \<le> iter" by simp
  have nr: "never_raises recorder args kwargs"
    by (simp add: never_raises_def recorder_def)
  from wrapper_ok [OF it, of e n_threads seq_iter recorder args kwargs w]
  obtain avg var w' xs where r:
    "wrapper e n_threads seq_iter iter recorder args kwargs w =
       (Inr [(''fun'', PStr (fun_name recorder)), (''args'', PTuple args),
             (''n_threads'', PInt n_threads), (''seq_iter'', PInt seq_iter), (''iter'', PInt iter),
             (''mean'', PFloat avg), (''variance'', var)], w')"
    "trace w' = trace w @ xs"
    "\<not> list_ex is_excepthook xs \<longrightarrow>
        length (filter is_call xs) = nat iter * (nat n_threads * nat seq_iter)"
    "user w' = (effect recorder args kwargs ^^ length (filter is_call xs)) (user w)"
    by blast
  have "filter is_excepthook (trace w') = filter is_excepthook (trace w)"
    using quiet_trials_filter [OF nr, of e n_threads seq_iter "nat iter" "[]" w]
      snd_wrapper [of e n_threads seq_iter iter recorder args kwargs w] r(1) by simp
  then have "filter is_excepthook xs = []" using r(2) by simp
  then have "\<not> list_ex is_excepthook xs"
    by (simp add: list_ex_iff filter_empty_conv)
  then have "length (filter is_call xs) = nat iter * (nat n_threads * nat seq_iter)"
    using r(3) by simp
  then show ?thesis using r(1,4) by (simp add: effect_recorder)
qed

section \<open>The claims\<close>

text \<open>
  C1. With \<open>iter = 1\<close> the result's \<open>variance\<close> is the integer 0, whatever the clock
  shows, whatever the workload does and for every \<open>n_threads\<close> and \<open>seq_iter\<close>. The engine
  does not apply the variance formula to the single timing: \<open>statistics.variance\<close> would
  raise on it.
\<close>

theorem single_trial_variance_zero:
  "\<exists>w'. wrapper e n_threads seq_iter 1 func args kwargs w =
          (Inr [(''fun'', PStr (fun_name func)), (''args'', PTuple args),
                (''n_threads'', PInt n_threads), (''seq_iter'', PInt seq_iter), (''iter'', PInt 1),
                (''mean'', PFloat (clock e (Suc (ticks w)) - clock e (ticks w))),
                (''variance'', PInt 0)], w') \<and>
        statistics_variance [clock e (Suc (ticks w)) - clock e (ticks w)] = Inl StatisticsError"
proof -
  from trials_ok [of e func args kwargs n_threads seq_iter "Suc 0" "[]" w]
  obtain w' where
    "trials e func args kwargs n_threads seq_iter (Suc 0) [] w =
       (Inr [clock e (Suc (ticks w)) - clock e (ticks w)], w')"
    by auto
  then have "wrapper e n_threads seq_iter 1 func args kwargs w =
          (Inr [(''fun'', PStr (fun_name func)), (''args'', PTuple args),
                (''n_threads'', PInt n_threads), (''seq_iter'', PInt seq_iter), (''iter'', PInt 1),
                (''mean'', PFloat (clock e (Suc (ticks w)) - clock e (ticks w))),
                (''variance'', PInt 0)], w')"
    by (simp add: wrapper_def statistics_mean_def)
  moreover have "statistics_variance [clock e (Suc (ticks w)) - clock e (ticks w)] = Inl StatisticsError"
    by (simp add: statistics_variance_def)
  ultimately show ?thesis by blast
qed

theorem single_trial_variance_zero_witness:
  "\<exists>w'. wrapper env0 4 4 1 stub [5] [] world0 =
          (Inr [(''fun'', PStr ''stub''), (''args'', PTuple [5]),
                (''n_threads'', PInt 4), (''seq_iter'', PInt 4), (''iter'', PInt 1),
                (''mean'', PFloat (1 / 2)), (''variance'', PInt 0)], w')"
  using single_trial_variance_zero [of env0 4 4 stub "[5]" "[]" world0]
  by (simp add: env0_def clock0_def world0_def stub_def)

text \<open>
  C2, as amended. The engine has no check of its parameters. A run with \<open>n_threads < 1\<close>,
  \<open>seq_iter < 1\<close> or \<open>iter < 1\<close> never invokes the workload. With \<open>iter < 1\<close> it fails
  with the \<open>StatisticsError\<close> of \<open>statistics.mean\<close> on the empty list of timings and
  leaves the world as it was; with \<open>iter \<ge> 1\<close> it times trials that have no invocation and
  returns a result that holds the parameters as they were given, not clamped.
\<close>

theorem invalid_config_runs_unchecked:
  assumes "n_threads < 1 \<or> seq_iter < 1 \<or> iter < 1"
  shows "calls (snd (wrapper e n_threads seq_iter iter func args kwargs w)) = calls w \<and>
         (iter < 1 \<longrightarrow>
            wrapper e n_threads seq_iter iter func args kwargs w = (Inl StatisticsError, w)) \<and>
         (1 \<le> iter \<longrightarrow>
            (\<exists>avg var w'. wrapper e n_threads seq_iter iter func args kwargs w =
               (Inr [(''fun'', PStr (fun_name func)), (''args'', PTuple args),
                     (''n_threads'', PInt n_threads), (''seq_iter'', PInt seq_iter),
                     (''iter'', PInt iter), (''mean'', PFloat avg), (''variance'', var)], w')))"
proof (cases "iter < 1")
  case True
  then show ?thesis by (simp add: wrapper_fails)
next
  case False
  then have it: "1 \<le> iter" by simp
  from False assms have "nat n_threads * nat seq_iter = 0" by auto
  with wrapper_ok [OF it, of e n_threads seq_iter func args kwargs w]
  obtain avg var w' xs where r:
    "wrapper e n_threads seq_iter iter func args kwargs w =
       (Inr [(''fun'', PStr (fun_name func)), (''args'', PTuple args),
             (''n_threads'', PInt n_threads), (''seq_iter'', PInt seq_iter), (''iter'', PInt iter),
             (''mean'', PFloat avg), (''variance'', var)], w')"
    "trace w' = trace w @ xs" "length (filter is_call xs) \<le> 0"
    by auto
  have "calls w' = calls w" using r(2,3) by (simp add: calls_def)
  then show ?thesis using r(1) it by simp
qed

theorem invalid_config_runs_unchecked_witness:
  "((-3::int) < 1 \<or> (0::int) < 1 \<or> (2::int) < 1) \<and>
   calls (snd (wrapper env0 (-3) 0 2 stub [5] [] world0)) = 0 \<and>
   (\<exists>avg var w'. wrapper env0 (-3) 0 2 stub [5] [] world0 =
      (Inr [(''fun'', PStr ''stub''), (''args'', PTuple [5]),
            (''n_threads'', PInt (-3)), (''seq_iter'', PInt 0),
            (''iter'', PInt 2), (''mean'', PFloat avg), (''variance'', var)], w'))"
proof -
  have h: "(-3::int) < 1 \<or> (0::int) < 1 \<or> (2::int) < 1" by simp
  from invalid_config_runs_unchecked [OF h, of env0 stub "[5]" "[]" world0]
  show ?thesis by (simp add: calls_def world0_def stub_def)
qed

text \<open>
  The claim as the specification states it, that such a run fails and returns no result,
  is false for \<open>n_threads = 0\<close>: the engine reads the clock twice and returns a result.
\<close>

theorem config_not_rejected:
  "wrapper env0 0 1 1 stub [5] [] world0 =
     (Inr [(''fun'', PStr ''stub''), (''args'', PTuple [5]),
           (''n_threads'', PInt 0), (''seq_iter'', PInt 1), (''iter'', PInt 1),
           (''mean'', PFloat (1 / 2)), (''variance'', PInt 0)],
      \<lparr>user = 0, ticks = 2, slots = 0, trace = [PerfCounter 0, PerfCounter (1 / 2)]\<rparr>)"
  by code_simp

text \<open>
  C3, as amended. A workload invocation that raises inside a worker is not surfaced to
  the caller of the engine. In every run with \<open>iter \<ge> 1\<close> in which some invocation raised
  (the thread's excepthook ran), the wrapper still returns a result; its mean is the mean
  of the timings of all \<open>iter\<close> trials, the ones with a failed worker included, and the
  run made at most \<open>iter * n_threads * seq_iter\<close> invocations.
\<close>

theorem worker_failure_not_surfaced:
  assumes "1 \<le> iter"
    and "list_ex is_excepthook
           (emitted w (snd (wrapper e n_threads seq_iter iter func args kwargs w)))"
  shows "\<exists>avg var w'.
           wrapper e n_threads seq_iter iter func args kwargs w =
             (Inr [(''fun'', PStr (fun_name func)), (''args'', PTuple args),
                   (''n_threads'', PInt n_threads), (''seq_iter'', PInt seq_iter),
                   (''iter'', PInt iter), (''mean'', PFloat avg), (''variance'', var)], w') \<and>
           statistics_mean (timings e (ticks w) (nat iter)) = Inr avg \<and>
           calls w' \<le> calls w + nat iter * (nat n_threads * nat seq_iter)"
proof -
  from wrapper_ok [OF assms(1), of e n_threads seq_iter func args kwargs w]
  obtain avg var w' xs where r:
    "wrapper e n_threads seq_iter iter func args kwargs w =
       (Inr [(''fun'', PStr (fun_name func)), (''args'', PTuple args),
             (''n_threads'', PInt n_threads), (''seq_iter'', PInt seq_iter), (''iter'', PInt iter),
             (''mean'', PFloat avg), (''variance'', var)], w')"
    "statistics_mean (timings e (ticks w) (nat iter)) = Inr avg"
    "trace w' = trace w @ xs"
    "length (filter is_call xs) \<le> nat iter * (nat n_threads * nat seq_iter)"
    by blast
  have "calls w' \<le> calls w + nat iter * (nat n_threads * nat seq_iter)"
    using r(3,4) by (simp add: calls_def)
  then show ?thesis using r(1,2) by blast
qed

theorem worker_failure_not_surfaced_witness:
  "1 \<le> (1::int) \<and>
   list_ex is_excepthook (emitted world0 (snd (wrapper env0 1 2 1 just_wait [-1] [] world0))) \<and>
   (\<exists>avg var w'.
      wrapper env0 1 2 1 just_wait [-1] [] world0 =
        (Inr [(''fun'', PStr ''just_wait''), (''args'', PTuple [-1]),
              (''n_threads'', PInt 1), (''seq_iter'', PInt 2),
              (''iter'', PInt 1), (''mean'', PFloat avg), (''variance'', var)], w'))"
proof -
  have h1: "1 \<le> (1::int)" by simp
  have h2: "list_ex is_excepthook
              (emitted world0 (snd (wrapper env0 1 2 1 just_wait [-1] [] world0)))"
    by code_simp
  from worker_failure_not_surfaced [OF h1 h2]
  show ?thesis using h2 by (auto simp: just_wait_def)
qed

text \<open>
  The claim as the specification states it, that the run aborts without a result, is
  false: \<open>just_wait(-1)\<close> raises in its worker, the worker gives up its second
  iteration, and the engine returns a result for the trial.
\<close>

theorem worker_failure_swallowed:
  "wrapper env0 1 2 1 just_wait [-1] [] world0 =
     (Inr [(''fun'', PStr ''just_wait''), (''args'', PTuple [-1]),
           (''n_threads'', PInt 1), (''seq_iter'', PInt 2), (''iter'', PInt 1),
           (''mean'', PFloat (1 / 2)), (''variance'', PInt 0)],
      \<lparr>user = 0, ticks = 2, slots = 2,
         trace = [PerfCounter 0, ThreadCreate 0, ThreadStart 0, Call 0 [-1] [],
                  Excepthook 0 ''ValueError'', ThreadJoin 0, PerfCounter (1 / 2)]\<rparr>)"
  by code_simp




text \<open>
  C5. With \<open>iter \<ge> 1\<close> and files that can be written, the driver calls the engine once
  for each of the thread counts 1, 2, 4, 8, in that order, each call starting in the world
  the one before left; \<open>seq_iter\<close> is \<open>16 div n_threads\<close>, that is 16, 8, 4 and 2, and each
  result holds the two numbers of its configuration.
\<close>

theorem sweep_configurations:
  assumes "1 \<le> iter"
    and "sink_ok e 1 16" and "sink_ok e 2 8" and "sink_ok e 4 4" and "sink_ok e 8 2"
  shows "\<exists>d1 w1 d2 w2 d4 w3 d8 w4.
           bench e 1 16 iter func args [] w = (Inr d1, w1) \<and>
           bench e 2 8 iter func args [] w1 = (Inr d2, w2) \<and>
           bench e 4 4 iter func args [] w2 = (Inr d4, w3) \<and>
           bench e 8 2 iter func args [] w3 = (Inr d8, w4) \<and>
           test e iter func args w = (Inr [(1, 16, d1), (2, 8, d2), (4, 4, d4), (8, 2, d8)], w4) \<and>
           map (\<lambda>d. (map_of d ''n_threads'', map_of d ''seq_iter'')) [d1, d2, d4, d8] =
             [(Some (PInt 1), Some (PInt 16)), (Some (PInt 2), Some (PInt 8)),
              (Some (PInt 4), Some (PInt 4)), (Some (PInt 8), Some (PInt 2))]"
proof -
  from bench_ok [OF assms(1), of e 1 16 func args "[]" w] obtain a1 v1 w1 where
    b1: "bench e 1 16 iter func args [] w =
       (Inr [(''fun'', PStr (fun_name func)), (''args'', PTuple args),
             (''n_threads'', PInt 1), (''seq_iter'', PInt 16), (''iter'', PInt iter),
             (''mean'', PFloat a1), (''variance'', v1)], w1)"
    by blast
  from bench_ok [OF assms(1), of e 2 8 func args "[]" w1] obtain a2 v2 w2 where
    b2: "bench e 2 8 iter func args [] w1 =
       (Inr [(''fun'', PStr (fun_name func)), (''args'', PTuple args),
             (''n_threads'', PInt 2), (''seq_iter'', PInt 8), (''iter'', PInt iter),
             (''mean'', PFloat a2), (''variance'', v2)], w2)"
    by blast
  from bench_ok [OF assms(1), of e 4 4 func args "[]" w2] obtain a4 v4 w3 where
    b4: "bench e 4 4 iter func args [] w2 =
       (Inr [(''fun'', PStr (fun_name func)), (''args'', PTuple args),
             (''n_threads'', PInt 4), (''seq_iter'', PInt 4), (''iter'', PInt iter),
             (''mean'', PFloat a4), (''variance'', v4)], w3)"
    by blast
  from bench_ok [OF assms(1), of e 8 2 func args "[]" w3] obtain a8 v8 w4 where
    b8: "bench e 8 2 iter func args [] w3 =
       (Inr [(''fun'', PStr (fun_name func)), (''args'', PTuple args),
             (''n_threads'', PInt 8), (''seq_iter'', PInt 2), (''iter'', PInt iter),
             (''mean'', PFloat a8), (''variance'', v8)], w4)"
    by blast
  show ?thesis
    using assms(2-5) by (simp add: test_def b1 b2 b4 b8)
qed

theorem sweep_configurations_witness:
  "1 \<le> (16::int) \<and> sink_ok env0 1 16 \<and> sink_ok env0 2 8 \<and> sink_ok env0 4 4 \<and>
   sink_ok env0 8 2 \<and>
   (\<exists>d1 d2 d4 d8 w4.
      test env0 16 just_wait [5] world0 =
        (Inr [(1, 16, d1), (2, 8, d2), (4, 4, d4), (8, 2, d8)], w4))"
proof -
  have h: "1 \<le> (16::int)" by simp
  have s: "sink_ok env0 1 16" "sink_ok env0 2 8" "sink_ok env0 4 4" "sink_ok env0 8 2"
    by (simp_all add: env0_def sink0_def)
  from sweep_configurations [OF h s, of just_wait "[5]" world0]
  show ?thesis using h s by blast
qed




text \<open>
  C7. Whenever every trial timing is non-negative, the result of a run with \<open>iter \<ge> 1\<close>
  has a non-negative \<open>mean\<close>, and with \<open>iter > 1\<close> a non-negative \<open>variance\<close>. The timings
  are the list \<open>results\<close> that the loop of trials hands to the statistics functions. The
  statement holds for every \<open>n_threads\<close> and \<open>seq_iter\<close>, the valid ones included.
\<close>

theorem mean_variance_nonnegative:
  assumes "1 \<le> iter"
    and "\<forall>x \<in> set (timings e (ticks w) (nat iter)). 0 \<le> x"
  shows "\<exists>avg var w'.
           fst (trials e func args kwargs n_threads seq_iter (nat iter) [] w) =
             Inr (timings e (ticks w) (nat iter)) \<and>
           wrapper e n_threads seq_iter iter func args kwargs w =
             (Inr [(''fun'', PStr (fun_name func)), (''args'', PTuple args),
                   (''n_threads'', PInt n_threads), (''seq_iter'', PInt seq_iter),
                   (''iter'', PInt iter), (''mean'', PFloat avg), (''variance'', var)], w') \<and>
           0 \<le> avg \<and>
           (1 < iter \<longrightarrow> (\<exists>v. var = PFloat v \<and> 0 \<le> v))"
proof -
  define results where "results = timings e (ticks w) (nat iter)"
  from wrapper_ok [OF assms(1), of e n_threads seq_iter func args kwargs w]
  obtain avg var w' where r:
    "wrapper e n_threads seq_iter iter func args kwargs w =
       (Inr [(''fun'', PStr (fun_name func)), (''args'', PTuple args),
             (''n_threads'', PInt n_threads), (''seq_iter'', PInt seq_iter), (''iter'', PInt iter),
             (''mean'', PFloat avg), (''variance'', var)], w')"
    "statistics_mean results = Inr avg"
    "iter \<noteq> 1 \<longrightarrow> (\<exists>v. statistics_variance results = Inr v \<and> var = PFloat v \<and> 0 \<le> v)"
    unfolding results_def by blast
  have ne: "results \<noteq> []"
    using r(2) by (auto simp: statistics_mean_def)
  have "avg = sum_list results / of_nat (length results)"
    using r(2) statistics_mean_Inr [OF ne] by simp
  moreover have "0 \<le> sum_list results"
    using assms(2) unfolding results_def by (intro sum_list_nonneg) simp
  ultimately have "0 \<le> avg" by simp
  moreover have "fst (trials e func args kwargs n_threads seq_iter (nat iter) [] w) = Inr results"
    using trials_ok [of e func args kwargs n_threads seq_iter "nat iter" "[]" w]
    unfolding results_def by auto
  moreover have "1 < iter \<longrightarrow> (\<exists>v. var = PFloat v \<and> 0 \<le> v)"
    using r(3) by auto
  ultimately show ?thesis using r(1) unfolding results_def by blast
qed

theorem mean_variance_nonnegative_witness:
  "1 \<le> (3::int) \<and> timings env0 (ticks world0) (nat 3) = [1 / 2, 5 / 2, 9 / 2] \<and>
   (\<exists>avg v w'.
      wrapper env0 2 2 3 stub [5] [] world0 =
        (Inr [(''fun'', PStr ''stub''), (''args'', PTuple [5]),
              (''n_threads'', PInt 2), (''seq_iter'', PInt 2),
              (''iter'', PInt 3), (''mean'', PFloat avg), (''variance'', PFloat v)], w') \<and>
      0 \<le> avg \<and> 0 \<le> v)"
proof -
  have h1: "1 \<le> (3::int)" by simp
  have t: "timings env0 (ticks world0) (nat 3) = [1 / 2, 5 / 2, 9 / 2]"
    by (simp add: env0_def clock0_def world0_def eval_nat_numeral)
  have h2: "\<forall>x \<in> set (timings env0 (ticks world0) (nat 3)). 0 \<le> x"
    unfolding t by simp
  from mean_variance_nonnegative [OF h1 h2, of stub "[5]" "[]" 2 2]
  show ?thesis using t by (auto simp: stub_def)
qed

text \<open>
  C8. For \<open>iter \<ge> 1\<close> the wrapper returns a dictionary with exactly the keys \<open>fun\<close>,
  \<open>args\<close>, \<open>n_threads\<close>, \<open>seq_iter\<close>, \<open>iter\<close>, \<open>mean\<close> and \<open>variance\<close>; it holds the
  workload's name, the positional arguments and the three parameters as they were given.
\<close>

theorem result_echoes_config:
  assumes "1 \<le> iter"
  shows "\<exists>d w'. wrapper e n_threads seq_iter iter func args kwargs w = (Inr d, w') \<and>
          map fst d = [''fun'', ''args'', ''n_threads'', ''seq_iter'', ''iter'', ''mean'', ''variance''] \<and>
          map_of d ''fun'' = Some (PStr (fun_name func)) \<and>
          map_of d ''args'' = Some (PTuple args) \<and>
          map_of d ''n_threads'' = Some (PInt n_threads) \<and>
          map_of d ''seq_iter'' = Some (PInt seq_iter) \<and>
          map_of d ''iter'' = Some (PInt iter) \<and>
          (\<exists>avg. map_of d ''mean'' = Some (PFloat avg) \<and>
                 statistics_mean (timings e (ticks w) (nat iter)) = Inr avg) \<and>
          (\<exists>var. map_of d ''variance'' = Some var)"
proof -
  from wrapper_ok [OF assms, of e n_threads seq_iter func args kwargs w]
  obtain avg var w' where r:
    "wrapper e n_threads seq_iter iter func args kwargs w =
       (Inr [(''fun'', PStr (fun_name func)), (''args'', PTuple args),
             (''n_threads'', PInt n_threads), (''seq_iter'', PInt seq_iter), (''iter'', PInt iter),
             (''mean'', PFloat avg), (''variance'', var)], w')"
    "statistics_mean (timings e (ticks w) (nat iter)) = Inr avg"
    by blast
  show ?thesis
    unfolding r(1) using r(2) by simp
qed

theorem result_echoes_config_witness:
  "1 \<le> (16::int) \<and>
   (\<exists>d w'. wrapper env0 8 2 16 just_wait [5] [] world0 = (Inr d, w') \<and>
      map_of d ''fun'' = Some (PStr ''just_wait'') \<and>
      map_of d ''args'' = Some (PTuple [5]) \<and>
      map_of d ''n_threads'' = Some (PInt 8) \<and>
      map_of d ''seq_iter'' = Some (PInt 2) \<and>
      map_of d ''iter'' = Some (PInt 16))"
proof -
  have h: "1 \<le> (16::int)" by simp
  from result_echoes_config [OF h, of env0 8 2 just_wait "[5]" "[]" world0]
  show ?thesis by (auto simp: just_wait_def)
qed

text \<open>
  C9. Every invocation that a call of the wrapper makes is an invocation of the workload
  with the call's positional and keyword arguments: the trace shows them at every call,
  and the world the workload sees after the run is the one that this many invocations
  with exactly these arguments leave. The value the call returns does not depend on the
  keyword arguments: with any other keyword arguments \<open>kwargs'\<close> it is the same. It is
  either the \<open>StatisticsError\<close> of a run without trials or a dictionary whose seven
  entries are the name, the positional arguments, the three parameters and the two
  statistics. The workload that writes down what it is invoked with has, after a run,
  written the positional and the keyword arguments once for each of the
  \<open>iter * n_threads * seq_iter\<close> invocations.
\<close>

theorem kwargs_forwarded_not_recorded:
  "\<exists>r w' xs.
     wrapper e n_threads seq_iter iter func args kwargs w = (r, w') \<and>
     trace w' = trace w @ xs \<and>
     list_all (forwards args kwargs) xs \<and>
     user w' = (effect func args kwargs ^^ length (filter is_call xs)) (user w) \<and>
     fst (wrapper e n_threads seq_iter iter func args kwargs' w) = r \<and>
     ((\<exists>avg var. r = Inr [(''fun'', PStr (fun_name func)), (''args'', PTuple args),
                          (''n_threads'', PInt n_threads), (''seq_iter'', PInt seq_iter),
                          (''iter'', PInt iter), (''mean'', PFloat avg), (''variance'', var)]) \<or>
      r = Inl StatisticsError) \<and>
     user (snd (wrapper e n_threads seq_iter iter recorder rargs rkwargs wl)) =
       user wl @ replicate (nat iter * (nat n_threads * nat seq_iter)) (rargs, rkwargs)"
proof (cases "iter < 1")
  case True
  then show ?thesis using recorder_log [of e n_threads seq_iter iter rargs rkwargs wl]
    by (simp add: wrapper_fails)
next
  case False
  then have it: "1 \<le> iter" by simp
  from wrapper_ok [OF it, of e n_threads seq_iter func args kwargs w]
  obtain avg var w' xs where r:
    "wrapper e n_threads seq_iter iter func args kwargs w =
       (Inr [(''fun'', PStr (fun_name func)), (''args'', PTuple args),
             (''n_threads'', PInt n_threads), (''seq_iter'', PInt seq_iter), (''iter'', PInt iter),
             (''mean'', PFloat avg), (''variance'', var)], w')"
    "statistics_mean (timings e (ticks w) (nat iter)) = Inr avg"
    "iter = 1 \<longrightarrow> var = PInt 0"
    "iter \<noteq> 1 \<longrightarrow> (\<exists>v. statistics_variance (timings e (ticks w) (nat iter)) = Inr v \<and>
                        var = PFloat v \<and> 0 \<le> v)"
    "trace w' = trace w @ xs"
    "list_all (forwards args kwargs) xs"
    "user w' = (effect func args kwargs ^^ length (filter is_call xs)) (user w)"
    by blast
  from wrapper_ok [OF it, of e n_threads seq_iter func args kwargs' w]
  obtain avg' var' w'' where r':
    "wrapper e n_threads seq_iter iter func args kwargs' w =
       (Inr [(''fun'', PStr (fun_name func)), (''args'', PTuple args),
             (''n_threads'', PInt n_threads), (''seq_iter'', PInt seq_iter), (''iter'', PInt iter),
             (''mean'', PFloat avg'), (''variance'', var')], w'')"
    "statistics_mean (timings e (ticks w) (nat iter)) = Inr avg'"
    "iter = 1 \<longrightarrow> var' = PInt 0"
    "iter \<noteq> 1 \<longrightarrow> (\<exists>v. statistics_variance (timings e (ticks w) (nat iter)) = Inr v \<and>
                        var' = PFloat v \<and> 0 \<le> v)"
    by blast
  have "avg' = avg" using r(2) r'(2) by simp
  moreover have "var' = var" using r(3,4) r'(3,4) by (cases "iter = 1") auto
  ultimately have "fst (wrapper e n_threads seq_iter iter func args kwargs' w) =
      Inr [(''fun'', PStr (fun_name func)), (''args'', PTuple args),
             (''n_threads'', PInt n_threads), (''seq_iter'', PInt seq_iter), (''iter'', PInt iter),
             (''mean'', PFloat avg), (''variance'', var)]"
    using r'(1) by simp
  then show ?thesis
    using r(1,5,6,7) recorder_log [of e n_threads seq_iter iter rargs rkwargs wl] by auto
qed

theorem kwargs_forwarded_not_recorded_witness:
  "wrapper env0 1 2 1 recorder [5] [(''k'', 7)] world_log =
     (Inr [(''fun'', PStr ''recorder''), (''args'', PTuple [5]),
           (''n_threads'', PInt 1), (''seq_iter'', PInt 2), (''iter'', PInt 1),
           (''mean'', PFloat (1 / 2)), (''variance'', PInt 0)],
      \<lparr>user = [([5], [(''k'', 7)]), ([5], [(''k'', 7)])], ticks = 2, slots = 2,
         trace = [PerfCounter 0, ThreadCreate 0, ThreadStart 0, Call 0 [5] [(''k'', 7)],
                  Call 0 [5] [(''k'', 7)], ThreadJoin 0, PerfCounter (1 / 2)]\<rparr>) \<and>
   user (snd (wrapper env0 1 2 1 recorder [5] [(''k'', 7)] world_log)) =
     (effect recorder [5] [(''k'', 7)] ^^ 2) [] \<and>
   fst (wrapper env0 1 2 1 recorder [5] [] world_log) =
     fst (wrapper env0 1 2 1 recorder [5] [(''k'', 7)] world_log)"
proof -
  have run: "wrapper env0 1 2 1 recorder [5] [(''k'', 7)] world_log =
     (Inr [(''fun'', PStr ''recorder''), (''args'', PTuple [5]),
           (''n_threads'', PInt 1), (''seq_iter'', PInt 2), (''iter'', PInt 1),
           (''mean'', PFloat (1 / 2)), (''variance'', PInt 0)],
      \<lparr>user = [([5], [(''k'', 7)]), ([5], [(''k'', 7)])], ticks = 2, slots = 2,
         trace = [PerfCounter 0, ThreadCreate 0, ThreadStart 0, Call 0 [5] [(''k'', 7)],
                  Call 0 [5] [(''k'', 7)], ThreadJoin 0, PerfCounter (1 / 2)]\<rparr>)"
    by code_simp
  from kwargs_forwarded_not_recorded
    [of env0 1 2 1 recorder "[5]" "[(''k'', 7)]" world_log "[]" "[5]" "[(''k'', 7)]" world_log]
  obtain r w' xs where t:
    "wrapper env0 1 2 1 recorder [5] [(''k'', 7)] world_log = (r, w')"
    "trace w' = trace world_log @ xs"
    "user w' = (effect recorder [5] [(''k'', 7)] ^^ length (filter is_call xs)) (user world_log)"
    "fst (wrapper env0 1 2 1 recorder [5] [] world_log) = r"
    by blast
  have "xs = [PerfCounter 0, ThreadCreate 0, ThreadStart 0, Call 0 [5] [(''k'', 7)],
                  Call 0 [5] [(''k'', 7)], ThreadJoin 0, PerfCounter (1 / 2)]"
    using t(1,2) run by (simp add: world_log_def)
  then have "length (filter is_call xs) = 2" by simp
  then have "user w' = (effect recorder [5] [(''k'', 7)] ^^ 2) []"
    using t(3) by (simp add: world_log_def)
  then show ?thesis using run t(1,4) by simp
qed

text \<open>
  C10. With \<open>iter = 0\<close> the loop of trials does not run: no clock is read, no thread is
  created, the workload is not invoked and the world is unchanged. The call fails when
  \<open>statistics.mean\<close> is applied to the empty list of timings, with its
  \<open>StatisticsError\<close>; no result is returned.
\<close>

theorem zero_trials_fail_in_mean:
  "trials e func args kwargs n_threads seq_iter (nat 0) [] w = (Inr [], w) \<and>
   statistics_mean [] = Inl StatisticsError \<and>
   wrapper e n_threads seq_iter 0 func args kwargs w = (Inl StatisticsError, w) \<and>
   calls (snd (wrapper e n_threads seq_iter 0 func args kwargs w)) = calls w"
  by (simp add: wrapper_def statistics_mean_def)

theorem zero_trials_fail_in_mean_witness:
  "wrapper env0 4 4 0 stub [5] [] world0 = (Inl StatisticsError, world0)"
  using zero_trials_fail_in_mean [of env0 stub "[5]" "[]" 4 4 world0] by simp

end
